theory Spec2Isabelle
  imports Main "HOL-Library.Word"
begin

section \<open>Data model of \<^verbatim>\<open>corobus.cpp\<close>\<close>

text \<open>
  The bus is single-threaded and cooperative, so every function of the source between two
  suspension points is a pure function of the program state. The state is the bus
  (\<^verbatim>\<open>struct coro_bus\<close>), the process-wide \<^verbatim>\<open>global_error\<close>, and a trace of the
  effects that leave the bus: calls of \<^verbatim>\<open>coro_wakeup\<close>, the clearing of a slot by
  close, and every release of storage, in program order.

  Machine types: \<^verbatim>\<open>unsigned\<close> is a 32-bit word; \<^verbatim>\<open>size_t\<close> is a natural number
  with the wrap-around at \<open>2 ^ 64\<close> written out; \<^verbatim>\<open>int\<close> is \<open>int\<close>, with the
  conversion from \<^verbatim>\<open>size_t\<close> written out. A coroutine handle is a natural number.
\<close>

type_synonym unsigned = "32 word"
type_synonym coro = nat

text \<open>Modelled from the spec: \<^verbatim>\<open>enum coro_bus_error_code\<close> is declared in
  \<^verbatim>\<open>corobus.h\<close>, which is not among the sources. Its kinds are the three of the spec's
  list of error kinds, under the names the source uses.\<close>

datatype coro_bus_error_code =
  CORO_BUS_ERR_NONE | CORO_BUS_ERR_NO_CHANNEL | CORO_BUS_ERR_WOULD_BLOCK

definition SIZE_MAX :: nat where
  "SIZE_MAX = 2 ^ 64 - 1"

definition INT_MAX :: int where
  "INT_MAX = 2 ^ 31 - 1"

definition size_t_add :: "nat \<Rightarrow> nat \<Rightarrow> nat" where
  "size_t_add a b = (a + b) mod 2 ^ 64"

definition size_t_sub :: "nat \<Rightarrow> nat \<Rightarrow> nat" where
  "size_t_sub a b = (a + (2 ^ 64 - b mod 2 ^ 64)) mod 2 ^ 64"

text \<open>The conversion \<^verbatim>\<open>(int)to_send\<close> of a \<^verbatim>\<open>size_t\<close>: the low 32 bits, read as
  two's complement.\<close>

definition int_of_size_t :: "nat \<Rightarrow> int" where
  "int_of_size_t n =
     (let m = n mod 2 ^ 32 in if m < 2 ^ 31 then int m else int m - 2 ^ 32)"

text \<open>Modelled from the spec: the intrusive list of \<^verbatim>\<open>rlist.h\<close> and the coroutine
  runtime of \<^verbatim>\<open>libcoro.h\<close> are not among the sources. Following the spec's wait queue and
  collaborator contract, a wait queue (\<^verbatim>\<open>struct wakeup_queue\<close>) is the list of the coroutines
  of its entries, first entry first: \<^verbatim>\<open>rlist_add_tail_entry\<close> appends an entry,
  \<^verbatim>\<open>rlist_first_entry\<close> is the head, \<^verbatim>\<open>rlist_del_entry\<close> unlinks an entry and does nothing
  to an entry that is already unlinked. \<^verbatim>\<open>coro_this()\<close> is a parameter \<open>self\<close>,
  \<^verbatim>\<open>coro_wakeup\<close> marks a coroutine runnable and is recorded in the trace, and
  \<^verbatim>\<open>coro_suspend()\<close> hands control to the other coroutines until the caller is resumed.\<close>

record coro_bus_channel =
  size_limit :: nat
  send_queue :: "coro list"
  recv_queue :: "coro list"
  data :: "unsigned list"
  head :: nat
  size_ch :: nat

datatype event =
  Coro_wakeup coro
  | Slot_cleared nat
  | Delete_data coro_bus_channel
  | Delete_channel coro_bus_channel
  | Free_channels
  | Free_bus

text \<open>\<open>Delete_data ch\<close> is \<^verbatim>\<open>delete[] ch->data\<close> and \<open>Delete_channel ch\<close> is
  \<^verbatim>\<open>delete ch\<close>, each with the channel object as it is when the statement runs.
  \<open>channels\<close> is the array \<^verbatim>\<open>bus->channels\<close>; its length is
  \<^verbatim>\<open>bus->channel_count\<close>, and \<open>None\<close> is a \<^verbatim>\<open>NULL\<close> slot.\<close>

record world =
  channels :: "coro_bus_channel option list"
  global_error :: coro_bus_error_code
  trace :: "event list"

definition channel_count :: "world \<Rightarrow> int" where
  "channel_count w = int (length (channels w))"

text \<open>The accessors \<^verbatim>\<open>coro_bus_errno\<close> and \<^verbatim>\<open>coro_bus_errno_set\<close>. In the functions below
  a call of \<^verbatim>\<open>coro_bus_errno_set\<close> is written as the update of \<open>global_error\<close> that it
  is.\<close>

definition coro_bus_errno :: "world \<Rightarrow> coro_bus_error_code" where
  "coro_bus_errno w = global_error w"

definition coro_bus_errno_set :: "coro_bus_error_code \<Rightarrow> world \<Rightarrow> world" where
  "coro_bus_errno_set err w = w\<lparr> global_error := err \<rparr>"

text \<open>What the allocator does is an input of the model: whether \<^verbatim>\<open>malloc\<close> and
  \<^verbatim>\<open>realloc\<close> return a block, whether \<^verbatim>\<open>operator new\<close> finds memory, and the
  indeterminate contents of a fresh array.\<close>

record allocator =
  malloc_ok :: bool
  new_ok :: bool
  garbage :: "nat \<Rightarrow> unsigned"

section \<open>Wait queues\<close>

text \<open>\<^verbatim>\<open>wakeup_queue_suspend_this\<close> runs in two halves: up to \<^verbatim>\<open>coro_suspend()\<close> the
  entry of the current coroutine is linked at the tail; after the coroutine is resumed the entry
  is unlinked from whatever list still holds it.\<close>

definition wakeup_queue_suspend_this :: "coro \<Rightarrow> coro list \<Rightarrow> coro list" where
  "wakeup_queue_suspend_this self queue = queue @ [self]"

definition wakeup_queue_resume_this :: "coro \<Rightarrow> coro list \<Rightarrow> coro list" where
  "wakeup_queue_resume_this self queue = remove1 self queue"

definition wakeup_queue_wakeup_first :: "coro list \<Rightarrow> event list \<Rightarrow> event list" where
  "wakeup_queue_wakeup_first queue tr =
     (if queue = [] then tr else tr @ [Coro_wakeup (hd queue)])"

fun wakeup_queue_wakeup_all :: "coro list \<Rightarrow> event list \<Rightarrow> coro list \<times> event list" where
  "wakeup_queue_wakeup_all [] tr = ([], tr)"
| "wakeup_queue_wakeup_all (c # queue) tr = wakeup_queue_wakeup_all queue (tr @ [Coro_wakeup c])"

section \<open>Channels and the bus\<close>

definition channel_init :: "allocator \<Rightarrow> nat \<Rightarrow> coro_bus_channel" where
  "channel_init al limit =
     \<lparr> size_limit = limit, send_queue = [], recv_queue = [],
       data = (if limit > 0 then map (garbage al) [0..<limit] else []),
       head = 0, size_ch = 0 \<rparr>"

definition channel_destroy :: "coro_bus_channel \<Rightarrow> coro_bus_channel" where
  "channel_destroy ch = ch\<lparr> data := [], size_limit := 0, head := 0, size_ch := 0 \<rparr>"

text \<open>\<^verbatim>\<open>coro_bus_new\<close>: the result is whether a bus was returned (\<open>False\<close> is
  \<^verbatim>\<open>NULL\<close>).\<close>

definition coro_bus_new :: "allocator \<Rightarrow> world \<Rightarrow> bool \<times> world" where
  "coro_bus_new al w =
     (if \<not> malloc_ok al then (False, w)
      else (True, w\<lparr> channels := [], global_error := CORO_BUS_ERR_NONE \<rparr>))"

text \<open>The scan of \<^verbatim>\<open>coro_bus_channel_open\<close> for a \<^verbatim>\<open>NULL\<close> slot, from index \<open>i\<close>.\<close>

fun find_free_slot :: "coro_bus_channel option list \<Rightarrow> nat \<Rightarrow> nat option" where
  "find_free_slot [] i = None"
| "find_free_slot (None # cs) i = Some i"
| "find_free_slot (Some ch # cs) i = find_free_slot cs (Suc i)"

text \<open>\<^verbatim>\<open>new coro_bus_channel()\<close> followed by \<^verbatim>\<open>new unsigned[size_limit]\<close> throws when
  memory is short or when the array's byte size does not fit \<^verbatim>\<open>size_t\<close>.\<close>

definition new_throws :: "allocator \<Rightarrow> nat \<Rightarrow> bool" where
  "new_throws al limit \<longleftrightarrow> \<not> new_ok al \<or> 4 * limit > SIZE_MAX"

datatype open_result =
  Opened int world
  | Bad_alloc
  | Int_overflow

text \<open>\<open>Opened r w\<close>: the call returned \<open>r\<close> in state \<open>w\<close>. \<open>Bad_alloc\<close>: an exception of
  \<^verbatim>\<open>operator new\<close> left the function. \<open>Int_overflow\<close>: \<^verbatim>\<open>bus->channel_count + 1\<close>
  overflowed \<^verbatim>\<open>int\<close>, which is undefined.\<close>

definition coro_bus_channel_open :: "allocator \<Rightarrow> world \<Rightarrow> nat \<Rightarrow> open_result" where
  "coro_bus_channel_open al w limit =
     (case find_free_slot (channels w) 0 of
        Some i \<Rightarrow>
          if new_throws al limit then Bad_alloc
          else Opened (int i)
                 (w\<lparr> channels := (channels w)[i := Some (channel_init al limit)],
                     global_error := CORO_BUS_ERR_NONE \<rparr>)
      | None \<Rightarrow>
          if channel_count w = INT_MAX then Int_overflow
          else if \<not> malloc_ok al then Opened (- 1) w
          else if new_throws al limit then Bad_alloc
          else Opened (channel_count w)
                 (w\<lparr> channels := channels w @ [Some (channel_init al limit)],
                     global_error := CORO_BUS_ERR_NONE \<rparr>))"

definition coro_bus_channel_close :: "world \<Rightarrow> int \<Rightarrow> world" where
  "coro_bus_channel_close w channel =
     (if channel < 0 \<or> channel \<ge> channel_count w then w
      else case channels w ! nat channel of
        None \<Rightarrow> w
      | Some ch \<Rightarrow>
          (let (sq, tr1) = wakeup_queue_wakeup_all (send_queue ch) (trace w);
               (rq, tr2) = wakeup_queue_wakeup_all (recv_queue ch) tr1;
               ch1 = ch\<lparr> send_queue := sq, recv_queue := rq \<rparr>;
               chans = (channels w)[nat channel := None];
               tr3 = tr2 @ [Slot_cleared (nat channel)];
               tr4 = tr3 @ [Delete_data ch1];
               ch2 = channel_destroy ch1;
               tr5 = tr4 @ [Delete_channel ch2]
           in w\<lparr> channels := chans, trace := tr5 \<rparr>))"

text \<open>\<^verbatim>\<open>coro_bus_delete\<close>: \<open>bus_null\<close> says that the argument is \<^verbatim>\<open>NULL\<close>. After the
  call the bus is gone; the model leaves an empty slot array.\<close>

definition coro_bus_delete :: "bool \<Rightarrow> world \<Rightarrow> world" where
  "coro_bus_delete bus_null w =
     (if bus_null then w
      else
        (let w1 = fold (\<lambda>i w'. if channels w' ! i \<noteq> None
                                 then coro_bus_channel_close w' (int i) else w')
                       [0..<length (channels w)] w
         in w1\<lparr> channels := [], trace := trace w1 @ [Free_channels, Free_bus] \<rparr>))"

section \<open>Non-blocking send and receive\<close>

definition coro_bus_try_send :: "world \<Rightarrow> int \<Rightarrow> unsigned \<Rightarrow> int \<times> world" where
  "coro_bus_try_send w channel d =
     (if channel < 0 \<or> channel \<ge> channel_count w \<or> channels w ! nat channel = None
      then (- 1, w\<lparr> global_error := CORO_BUS_ERR_NO_CHANNEL \<rparr>)
      else
        (let ch = the (channels w ! nat channel) in
         if size_ch ch = size_limit ch
         then (- 1, w\<lparr> global_error := CORO_BUS_ERR_WOULD_BLOCK \<rparr>)
         else
           (let pos = (if size_limit ch > 0
                       then size_t_add (head ch) (size_ch ch) mod size_limit ch else 0);
                ch1 = (if size_limit ch > 0 then ch\<lparr> data := (data ch)[pos := d] \<rparr> else ch);
                ch2 = ch1\<lparr> size_ch := size_t_add (size_ch ch1) 1 \<rparr>
            in (0, w\<lparr> channels := (channels w)[nat channel := Some ch2],
                      global_error := CORO_BUS_ERR_NONE,
                      trace := wakeup_queue_wakeup_first (recv_queue ch2) (trace w) \<rparr>))))"

text \<open>The out-parameter \<^verbatim>\<open>unsigned *data\<close> of \<^verbatim>\<open>coro_bus_try_recv\<close> is \<open>None\<close> for
  \<^verbatim>\<open>NULL\<close> and \<open>Some v\<close> for a pointer to a cell holding \<open>v\<close>; the result carries the cell
  after the call.\<close>

definition coro_bus_try_recv ::
  "world \<Rightarrow> int \<Rightarrow> unsigned option \<Rightarrow> int \<times> unsigned option \<times> world" where
  "coro_bus_try_recv w channel out =
     (if channel < 0 \<or> channel \<ge> channel_count w \<or> channels w ! nat channel = None
      then (- 1, out, w\<lparr> global_error := CORO_BUS_ERR_NO_CHANNEL \<rparr>)
      else
        (let ch = the (channels w ! nat channel) in
         if size_ch ch = 0
         then (- 1, out, w\<lparr> global_error := CORO_BUS_ERR_WOULD_BLOCK \<rparr>)
         else
           (let out1 = (if out \<noteq> None \<and> size_limit ch > 0
                        then Some (data ch ! head ch) else out);
                ch1 = (if size_limit ch > 0
                       then ch\<lparr> head := size_t_add (head ch) 1 mod size_limit ch \<rparr> else ch);
                ch2 = ch1\<lparr> size_ch := size_t_sub (size_ch ch1) 1 \<rparr>
            in (0, out1,
                w\<lparr> channels := (channels w)[nat channel := Some ch2],
                   global_error := CORO_BUS_ERR_NONE,
                   trace := wakeup_queue_wakeup_first (send_queue ch2) (trace w) \<rparr>))))"

section \<open>Vectorised send and receive\<close>

text \<open>The pair \<^verbatim>\<open>(data, count)\<close> of \<^verbatim>\<open>coro_bus_try_send_v\<close> is the list \<open>ws\<close> of the
  \<open>count\<close> words the caller passes. The copy loop runs over the first \<open>to_send\<close> of them.\<close>

fun send_v_loop :: "coro_bus_channel \<Rightarrow> unsigned list \<Rightarrow> coro_bus_channel" where
  "send_v_loop ch [] = ch"
| "send_v_loop ch (x # xs) =
     send_v_loop
       (ch\<lparr> data := (data ch)[size_t_add (head ch) (size_ch ch) mod size_limit ch := x],
            size_ch := size_t_add (size_ch ch) 1 \<rparr>) xs"

definition coro_bus_try_send_v :: "world \<Rightarrow> int \<Rightarrow> unsigned list \<Rightarrow> int \<times> world" where
  "coro_bus_try_send_v w channel ws =
     (if channel < 0 \<or> channel \<ge> channel_count w \<or> channels w ! nat channel = None
      then (- 1, w\<lparr> global_error := CORO_BUS_ERR_NO_CHANNEL \<rparr>)
      else
        (let ch = the (channels w ! nat channel) in
         if size_ch ch = size_limit ch
         then (- 1, w\<lparr> global_error := CORO_BUS_ERR_WOULD_BLOCK \<rparr>)
         else
           (let free_space = size_t_sub (size_limit ch) (size_ch ch);
                to_send = (if length ws > free_space then free_space else length ws);
                ch1 = send_v_loop ch (take to_send ws)
            in (int_of_size_t to_send,
                w\<lparr> channels := (channels w)[nat channel := Some ch1],
                   global_error := CORO_BUS_ERR_NONE,
                   trace := (if to_send > 0
                             then wakeup_queue_wakeup_first (recv_queue ch1) (trace w)
                             else trace w) \<rparr>))))"

text \<open>The drain loop of \<^verbatim>\<open>coro_bus_try_recv_v\<close>, run \<open>to_recv\<close> times; the words it
  stores to \<^verbatim>\<open>data[0..to_recv)\<close> are returned as a list.\<close>

fun recv_v_loop :: "nat \<Rightarrow> coro_bus_channel \<Rightarrow> unsigned list \<times> coro_bus_channel" where
  "recv_v_loop 0 ch = ([], ch)"
| "recv_v_loop (Suc n) ch =
     (let x = data ch ! head ch;
          (xs, ch1) = recv_v_loop n (ch\<lparr> head := size_t_add (head ch) 1 mod size_limit ch \<rparr>)
      in (x # xs, ch1))"

definition coro_bus_try_recv_v :: "world \<Rightarrow> int \<Rightarrow> nat \<Rightarrow> int \<times> unsigned list \<times> world" where
  "coro_bus_try_recv_v w channel capacity =
     (if channel < 0 \<or> channel \<ge> channel_count w \<or> channels w ! nat channel = None
      then (- 1, [], w\<lparr> global_error := CORO_BUS_ERR_NO_CHANNEL \<rparr>)
      else
        (let ch = the (channels w ! nat channel) in
         if size_ch ch = 0
         then (- 1, [], w\<lparr> global_error := CORO_BUS_ERR_WOULD_BLOCK \<rparr>)
         else
           (let to_recv = (if capacity > size_ch ch then size_ch ch else capacity);
                (xs, ch1) = recv_v_loop to_recv ch;
                ch2 = ch1\<lparr> size_ch := size_t_sub (size_ch ch1) to_recv \<rparr>
            in (int_of_size_t to_recv, xs,
                w\<lparr> channels := (channels w)[nat channel := Some ch2],
                   global_error := CORO_BUS_ERR_NONE,
                   trace := wakeup_queue_wakeup_first (send_queue ch2) (trace w) \<rparr>))))"

section \<open>Broadcast\<close>

text \<open>The first loop of \<^verbatim>\<open>coro_bus_try_broadcast\<close>: \<open>None\<close> when it meets a full
  channel, otherwise the count \<^verbatim>\<open>existing\<close> of open channels.\<close>

fun broadcast_scan :: "coro_bus_channel option list \<Rightarrow> int \<Rightarrow> int option" where
  "broadcast_scan [] existing = Some existing"
| "broadcast_scan (None # cs) existing = broadcast_scan cs existing"
| "broadcast_scan (Some ch # cs) existing =
     (if size_ch ch = size_limit ch then None else broadcast_scan cs (existing + 1))"

text \<open>The body of the second loop for one open channel.\<close>

definition broadcast_put :: "unsigned \<Rightarrow> coro_bus_channel \<Rightarrow> coro_bus_channel" where
  "broadcast_put d ch =
     (let pos = (if size_limit ch > 0
                 then size_t_add (head ch) (size_ch ch) mod size_limit ch else 0);
          ch1 = (if size_limit ch > 0 then ch\<lparr> data := (data ch)[pos := d] \<rparr> else ch)
      in ch1\<lparr> size_ch := size_t_add (size_ch ch1) 1 \<rparr>)"

fun broadcast_deliver ::
  "unsigned \<Rightarrow> coro_bus_channel option list \<Rightarrow> event list
     \<Rightarrow> coro_bus_channel option list \<times> event list" where
  "broadcast_deliver d [] tr = ([], tr)"
| "broadcast_deliver d (None # cs) tr =
     (let (cs', tr') = broadcast_deliver d cs tr in (None # cs', tr'))"
| "broadcast_deliver d (Some ch # cs) tr =
     (let ch' = broadcast_put d ch;
          (cs', tr') = broadcast_deliver d cs (wakeup_queue_wakeup_first (recv_queue ch') tr)
      in (Some ch' # cs', tr'))"

definition coro_bus_try_broadcast :: "world \<Rightarrow> unsigned \<Rightarrow> int \<times> world" where
  "coro_bus_try_broadcast w d =
     (case broadcast_scan (channels w) 0 of
        None \<Rightarrow> (- 1, w\<lparr> global_error := CORO_BUS_ERR_WOULD_BLOCK \<rparr>)
      | Some existing \<Rightarrow>
          if existing = 0 then (- 1, w\<lparr> global_error := CORO_BUS_ERR_NO_CHANNEL \<rparr>)
          else
            (let (chans, tr) = broadcast_deliver d (channels w) (trace w)
             in (0, w\<lparr> channels := chans, trace := tr,
                       global_error := CORO_BUS_ERR_NONE \<rparr>)))"

section \<open>The blocking layer\<close>

text \<open>
  One pass through the body of a \<^verbatim>\<open>while (true)\<close> loop of a blocking function ends in one
  of three ways: the function returns; the coroutine links its entry into the wait queue of the
  channel in slot \<open>i\<close> and suspends; or the loop goes round again at once
  (\<^verbatim>\<open>continue\<close>).
\<close>

datatype 'a outcome =
  Returned 'a world
  | Suspended world nat
  | Continue world

text \<open>While a coroutine is suspended the other coroutines run. What they do to the state is
  an input of the model: a list of state transformers, one for each suspension. The list is also
  the fuel of the loop: \<open>None\<close> means that the call has not returned when the list is used up.
  \<open>resume i\<close> is the second half of \<^verbatim>\<open>wakeup_queue_suspend_this\<close>.\<close>

fun run_blocking ::
  "(world \<Rightarrow> 'a outcome) \<Rightarrow> (nat \<Rightarrow> world \<Rightarrow> world) \<Rightarrow> (world \<Rightarrow> world) list \<Rightarrow> world
     \<Rightarrow> ('a \<times> world) option" where
  "run_blocking iter resume [] w =
     (case iter w of Returned r w' \<Rightarrow> Some (r, w') | Suspended w' i \<Rightarrow> None
      | Continue w' \<Rightarrow> None)"
| "run_blocking iter resume (e # es) w =
     (case iter w of
        Returned r w' \<Rightarrow> Some (r, w')
      | Suspended w' i \<Rightarrow> run_blocking iter resume es (resume i (e w'))
      | Continue w' \<Rightarrow> run_blocking iter resume es w')"

definition valid_channel :: "world \<Rightarrow> int \<Rightarrow> bool" where
  "valid_channel w channel \<longleftrightarrow>
     \<not> (channel < 0 \<or> channel \<ge> channel_count w \<or> channels w ! nat channel = None)"

definition suspend_on_send_queue :: "coro \<Rightarrow> nat \<Rightarrow> world \<Rightarrow> world" where
  "suspend_on_send_queue self i w =
     (let ch = the (channels w ! i)
      in w\<lparr> channels := (channels w)
              [i := Some (ch\<lparr> send_queue := wakeup_queue_suspend_this self (send_queue ch) \<rparr>)] \<rparr>)"

definition suspend_on_recv_queue :: "coro \<Rightarrow> nat \<Rightarrow> world \<Rightarrow> world" where
  "suspend_on_recv_queue self i w =
     (let ch = the (channels w ! i)
      in w\<lparr> channels := (channels w)
              [i := Some (ch\<lparr> recv_queue := wakeup_queue_suspend_this self (recv_queue ch) \<rparr>)] \<rparr>)"

text \<open>On resumption the entry is unlinked. If the channel was closed meanwhile, the entry
  was unlinked by \<^verbatim>\<open>wakeup_queue_wakeup_all\<close> and nothing changes.\<close>

definition resume_on_send_queue :: "coro \<Rightarrow> nat \<Rightarrow> world \<Rightarrow> world" where
  "resume_on_send_queue self i w =
     (if i < length (channels w) then
        (case channels w ! i of
           None \<Rightarrow> w
         | Some ch \<Rightarrow>
             w\<lparr> channels := (channels w)
                 [i := Some (ch\<lparr> send_queue := wakeup_queue_resume_this self (send_queue ch) \<rparr>)] \<rparr>)
      else w)"

definition resume_on_recv_queue :: "coro \<Rightarrow> nat \<Rightarrow> world \<Rightarrow> world" where
  "resume_on_recv_queue self i w =
     (if i < length (channels w) then
        (case channels w ! i of
           None \<Rightarrow> w
         | Some ch \<Rightarrow>
             w\<lparr> channels := (channels w)
                 [i := Some (ch\<lparr> recv_queue := wakeup_queue_resume_this self (recv_queue ch) \<rparr>)] \<rparr>)
      else w)"

text \<open>The wake-up of the successor after a success: \<^verbatim>\<open>ch\<close> is looked up again, and the
  first waiter of the same queue is woken when the channel still has room (send family) or still
  has data (receive family).\<close>

definition wake_next_sender :: "world \<Rightarrow> int \<Rightarrow> world" where
  "wake_next_sender w channel =
     (case (if channel \<ge> 0 \<and> channel < channel_count w then channels w ! nat channel else None) of
        None \<Rightarrow> w
      | Some ch \<Rightarrow>
          if size_ch ch < size_limit ch
          then w\<lparr> trace := wakeup_queue_wakeup_first (send_queue ch) (trace w) \<rparr> else w)"

definition wake_next_receiver :: "world \<Rightarrow> int \<Rightarrow> world" where
  "wake_next_receiver w channel =
     (case (if channel \<ge> 0 \<and> channel < channel_count w then channels w ! nat channel else None) of
        None \<Rightarrow> w
      | Some ch \<Rightarrow>
          if size_ch ch > 0
          then w\<lparr> trace := wakeup_queue_wakeup_first (recv_queue ch) (trace w) \<rparr> else w)"

definition coro_bus_send_iter :: "coro \<Rightarrow> int \<Rightarrow> unsigned \<Rightarrow> world \<Rightarrow> int outcome" where
  "coro_bus_send_iter self channel d w =
     (let (rc, w1) = coro_bus_try_send w channel d in
      if rc = 0 then Returned 0 (wake_next_sender w1 channel)
      else if global_error w1 \<noteq> CORO_BUS_ERR_WOULD_BLOCK then Returned (- 1) w1
      else if channel < 0 \<or> channel \<ge> channel_count w1 \<or> channels w1 ! nat channel = None
      then Returned (- 1) (w1\<lparr> global_error := CORO_BUS_ERR_NO_CHANNEL \<rparr>)
      else Suspended (suspend_on_send_queue self (nat channel) w1) (nat channel))"

definition coro_bus_send ::
  "(world \<Rightarrow> world) list \<Rightarrow> coro \<Rightarrow> world \<Rightarrow> int \<Rightarrow> unsigned \<Rightarrow> (int \<times> world) option" where
  "coro_bus_send envs self w channel d =
     run_blocking (coro_bus_send_iter self channel d) (resume_on_send_queue self) envs w"

text \<open>For the receiving functions the returned value carries the out-parameter beside the
  return code.\<close>

definition coro_bus_recv_iter ::
  "coro \<Rightarrow> int \<Rightarrow> unsigned option \<Rightarrow> world \<Rightarrow> (int \<times> unsigned option) outcome" where
  "coro_bus_recv_iter self channel out w =
     (let (rc, out1, w1) = coro_bus_try_recv w channel out in
      if rc = 0 then Returned (0, out1) (wake_next_receiver w1 channel)
      else if global_error w1 \<noteq> CORO_BUS_ERR_WOULD_BLOCK then Returned (- 1, out1) w1
      else if channel < 0 \<or> channel \<ge> channel_count w1 \<or> channels w1 ! nat channel = None
      then Returned (- 1, out1) (w1\<lparr> global_error := CORO_BUS_ERR_NO_CHANNEL \<rparr>)
      else Suspended (suspend_on_recv_queue self (nat channel) w1) (nat channel))"

definition coro_bus_recv ::
  "(world \<Rightarrow> world) list \<Rightarrow> coro \<Rightarrow> world \<Rightarrow> int \<Rightarrow> unsigned option
     \<Rightarrow> ((int \<times> unsigned option) \<times> world) option" where
  "coro_bus_recv envs self w channel out =
     run_blocking (coro_bus_recv_iter self channel out) (resume_on_recv_queue self) envs w"

text \<open>The scan of \<^verbatim>\<open>coro_bus_broadcast\<close> for a full channel to wait on, from index
  \<open>i\<close>; \<open>None\<close> is \<^verbatim>\<open>wait_idx < 0\<close>.\<close>

fun find_full_channel :: "coro_bus_channel option list \<Rightarrow> nat \<Rightarrow> nat option" where
  "find_full_channel [] i = None"
| "find_full_channel (None # cs) i = find_full_channel cs (Suc i)"
| "find_full_channel (Some ch # cs) i =
     (if size_ch ch = size_limit ch then Some i else find_full_channel cs (Suc i))"

definition coro_bus_broadcast_iter :: "coro \<Rightarrow> unsigned \<Rightarrow> world \<Rightarrow> int outcome" where
  "coro_bus_broadcast_iter self d w =
     (let (rc, w1) = coro_bus_try_broadcast w d in
      if rc = 0 then Returned 0 w1
      else if global_error w1 \<noteq> CORO_BUS_ERR_WOULD_BLOCK then Returned (- 1) w1
      else case find_full_channel (channels w1) 0 of
        None \<Rightarrow> Continue w1
      | Some wait_idx \<Rightarrow>
          (case channels w1 ! wait_idx of
             None \<Rightarrow> Continue w1
           | Some ch \<Rightarrow> Suspended (suspend_on_send_queue self wait_idx w1) wait_idx))"

definition coro_bus_broadcast ::
  "(world \<Rightarrow> world) list \<Rightarrow> coro \<Rightarrow> world \<Rightarrow> unsigned \<Rightarrow> (int \<times> world) option" where
  "coro_bus_broadcast envs self w d =
     run_blocking (coro_bus_broadcast_iter self d) (resume_on_send_queue self) envs w"

definition coro_bus_send_v_iter :: "coro \<Rightarrow> int \<Rightarrow> unsigned list \<Rightarrow> world \<Rightarrow> int outcome" where
  "coro_bus_send_v_iter self channel ws w =
     (let (rc, w1) = coro_bus_try_send_v w channel ws in
      if rc \<ge> 0 then Returned rc (wake_next_sender w1 channel)
      else if global_error w1 \<noteq> CORO_BUS_ERR_WOULD_BLOCK then Returned (- 1) w1
      else if channel < 0 \<or> channel \<ge> channel_count w1 \<or> channels w1 ! nat channel = None
      then Returned (- 1) (w1\<lparr> global_error := CORO_BUS_ERR_NO_CHANNEL \<rparr>)
      else Suspended (suspend_on_send_queue self (nat channel) w1) (nat channel))"

definition coro_bus_send_v ::
  "(world \<Rightarrow> world) list \<Rightarrow> coro \<Rightarrow> world \<Rightarrow> int \<Rightarrow> unsigned list \<Rightarrow> (int \<times> world) option" where
  "coro_bus_send_v envs self w channel ws =
     run_blocking (coro_bus_send_v_iter self channel ws) (resume_on_send_queue self) envs w"

definition coro_bus_recv_v_iter ::
  "coro \<Rightarrow> int \<Rightarrow> nat \<Rightarrow> world \<Rightarrow> (int \<times> unsigned list) outcome" where
  "coro_bus_recv_v_iter self channel capacity w =
     (let (rc, xs, w1) = coro_bus_try_recv_v w channel capacity in
      if rc \<ge> 0 then Returned (rc, xs) (wake_next_receiver w1 channel)
      else if global_error w1 \<noteq> CORO_BUS_ERR_WOULD_BLOCK then Returned (- 1, xs) w1
      else if channel < 0 \<or> channel \<ge> channel_count w1 \<or> channels w1 ! nat channel = None
      then Returned (- 1, xs) (w1\<lparr> global_error := CORO_BUS_ERR_NO_CHANNEL \<rparr>)
      else Suspended (suspend_on_recv_queue self (nat channel) w1) (nat channel))"

definition coro_bus_recv_v ::
  "(world \<Rightarrow> world) list \<Rightarrow> coro \<Rightarrow> world \<Rightarrow> int \<Rightarrow> nat
     \<Rightarrow> ((int \<times> unsigned list) \<times> world) option" where
  "coro_bus_recv_v envs self w channel capacity =
     run_blocking (coro_bus_recv_v_iter self channel capacity) (resume_on_recv_queue self) envs w"

section \<open>Invariants\<close>

definition slot_all :: "(coro_bus_channel \<Rightarrow> bool) \<Rightarrow> coro_bus_channel option \<Rightarrow> bool" where
  "slot_all P s = (case s of None \<Rightarrow> True | Some ch \<Rightarrow> P ch)"

text \<open>The invariant of the data model: occupancy within the capacity, head within the
  ring.\<close>

definition chan_inv :: "coro_bus_channel \<Rightarrow> bool" where
  "chan_inv ch \<longleftrightarrow> size_ch ch \<le> size_limit ch \<and> head ch < max (size_limit ch) 1"

definition bus_inv :: "world \<Rightarrow> bool" where
  "bus_inv w \<longleftrightarrow> list_all (slot_all chan_inv) (channels w)"

text \<open>Well-formed storage: the buffer has \<open>size_limit\<close> words and its byte size fits
  \<^verbatim>\<open>size_t\<close>, as \<^verbatim>\<open>channel_init\<close> leaves it. A new bus is well formed and every
  operation keeps the bus well formed (lemmas \<open>bus_new_fresh\<close>, \<open>open_ok\<close>, \<open>try_send_ok\<close> and
  their like below). In a well-formed channel a send or a receive that passes the full or empty
  check has a positive capacity, so its modulus is not by zero, its index is inside the
  buffer, and its \<^verbatim>\<open>size_t\<close> arithmetic does not wrap (lemmas \<open>try_send_success\<close>,
  \<open>try_recv_success\<close>, \<open>try_send_v_success\<close>, \<open>try_recv_v_success\<close>, \<open>broadcast_put_ok\<close>).\<close>

definition chan_ok :: "coro_bus_channel \<Rightarrow> bool" where
  "chan_ok ch \<longleftrightarrow>
     chan_inv ch \<and> length (data ch) = size_limit ch \<and> 4 * size_limit ch \<le> SIZE_MAX"

definition bus_ok :: "world \<Rightarrow> bool" where
  "bus_ok w \<longleftrightarrow> list_all (slot_all chan_ok) (channels w)"

text \<open>The logical contents of the ring: the word at logical position \<open>k\<close> is read at
  \<open>(head + k) mod size_limit\<close>.\<close>

definition ring_contents :: "coro_bus_channel \<Rightarrow> unsigned list" where
  "ring_contents ch =
     map (\<lambda>k. data ch ! ((head ch + k) mod size_limit ch)) [0..<size_ch ch]"

section \<open>Example states\<close>

definition zero_cap_world :: world where
  "zero_cap_world =
     \<lparr> channels =
         [Some \<lparr> size_limit = 2, send_queue = [], recv_queue = [], data = [0, 0],
                 head = 0, size_ch = 0 \<rparr>,
          None,
          Some \<lparr> size_limit = 0, send_queue = [], recv_queue = [], data = [],
                 head = 0, size_ch = 0 \<rparr>],
       global_error = CORO_BUS_ERR_NONE, trace = [] \<rparr>"

definition recv_world :: world where
  "recv_world =
     \<lparr> channels =
         [Some \<lparr> size_limit = 2, send_queue = [3, 4], recv_queue = [], data = [11, 22],
                 head = 1, size_ch = 2 \<rparr>],
       global_error = CORO_BUS_ERR_WOULD_BLOCK, trace = [] \<rparr>"

definition waiters_world :: world where
  "waiters_world =
     \<lparr> channels =
         [Some \<lparr> size_limit = 2, send_queue = [3, 4, 5], recv_queue = [], data = [11, 22],
                 head = 1, size_ch = 2 \<rparr>],
       global_error = CORO_BUS_ERR_WOULD_BLOCK, trace = [Free_bus] \<rparr>"

definition send_v_world :: world where
  "send_v_world =
     \<lparr> channels =
         [Some \<lparr> size_limit = 4, send_queue = [], recv_queue = [7, 8, 9], data = [0, 0, 0, 9],
                 head = 3, size_ch = 1 \<rparr>],
       global_error = CORO_BUS_ERR_WOULD_BLOCK, trace = [] \<rparr>"

definition full_world :: world where
  "full_world =
     \<lparr> channels =
         [Some \<lparr> size_limit = 1, send_queue = [], recv_queue = [], data = [5],
                 head = 0, size_ch = 1 \<rparr>],
       global_error = CORO_BUS_ERR_NONE, trace = [] \<rparr>"

definition empty_world :: world where
  "empty_world =
     \<lparr> channels =
         [Some \<lparr> size_limit = 1, send_queue = [], recv_queue = [], data = [5],
                 head = 0, size_ch = 0 \<rparr>],
       global_error = CORO_BUS_ERR_NONE, trace = [] \<rparr>"

text \<open>What the other coroutines do while the caller is suspended, in the examples: one of
  them closes channel 0.\<close>

definition close_channel_0 :: "world \<Rightarrow> world" where
  "close_channel_0 w = coro_bus_channel_close w 0"

definition plain_allocator :: allocator where
  "plain_allocator = \<lparr> malloc_ok = True, new_ok = True, garbage = (\<lambda>i. 0) \<rparr>"

text \<open>A driver for the tests of descriptor allocation: open one channel for each capacity of
  the list, in order, and collect the descriptors; \<open>None\<close> when a call does not return.\<close>

fun open_many :: "allocator \<Rightarrow> nat list \<Rightarrow> world \<Rightarrow> (int list \<times> world) option" where
  "open_many al [] w = Some ([], w)"
| "open_many al (n # ns) w =
     (case coro_bus_channel_open al w n of
        Opened r w' \<Rightarrow>
          (case open_many al ns w' of
             Some (rs, w'') \<Rightarrow> Some (r # rs, w'')
           | None \<Rightarrow> None)
      | Bad_alloc \<Rightarrow> None
      | Int_overflow \<Rightarrow> None)"

definition fresh_world :: world where
  "fresh_world = \<lparr> channels = [], global_error = CORO_BUS_ERR_NONE, trace = [] \<rparr>"

text \<open>The events of one wake-first on the receive queue of the channel of a slot: the
  wake-up of its first waiter if there is one, nothing for an empty queue or an empty slot.\<close>

definition wake_first_events :: "coro_bus_channel option \<Rightarrow> event list" where
  "wake_first_events s =
     (case s of
        None \<Rightarrow> []
      | Some ch \<Rightarrow> (if recv_queue ch = [] then [] else [Coro_wakeup (hd (recv_queue ch))]))"

definition bcast_world :: world where
  "bcast_world =
     \<lparr> channels =
         [Some \<lparr> size_limit = 2, send_queue = [], recv_queue = [7, 8, 9], data = [0, 0],
                 head = 1, size_ch = 0 \<rparr>,
          None,
          Some \<lparr> size_limit = 3, send_queue = [], recv_queue = [], data = [1, 2, 3],
                 head = 2, size_ch = 2 \<rparr>,
          Some \<lparr> size_limit = 1, send_queue = [6], recv_queue = [4, 5, 6, 7], data = [0],
                 head = 0, size_ch = 0 \<rparr>],
       global_error = CORO_BUS_ERR_WOULD_BLOCK, trace = [] \<rparr>"

text \<open>The state in which one pass through a blocking loop ends.\<close>

definition outcome_world :: "'a outcome \<Rightarrow> world" where
  "outcome_world out = (case out of Returned r w \<Rightarrow> w | Suspended w i \<Rightarrow> w | Continue w \<Rightarrow> w)"

text \<open>A driver for the order of delivery on one channel: a list of non-blocking sends and
  receives is run on the channel \<open>c\<close>; the result is the list of the words whose send
  succeeded, the list of the words received, both in the order of the calls, and the final
  state.\<close>

datatype chan_op = Op_send unsigned | Op_recv

fun run_ops :: "int \<Rightarrow> chan_op list \<Rightarrow> world \<Rightarrow> unsigned list \<times> unsigned list \<times> world" where
  "run_ops c [] w = ([], [], w)"
| "run_ops c (Op_send d # ops) w =
     (let (rc, w1) = coro_bus_try_send w c d;
          (sent, received, w2) = run_ops c ops w1
      in (if rc = 0 then d # sent else sent, received, w2))"
| "run_ops c (Op_recv # ops) w =
     (let (rc, out, w1) = coro_bus_try_recv w c (Some 0);
          (sent, received, w2) = run_ops c ops w1
      in (sent, if rc = 0 then the out # received else received, w2))"

definition pipe_world :: world where
  "pipe_world =
     \<lparr> channels =
         [Some \<lparr> size_limit = 2, send_queue = [], recv_queue = [], data = [0, 0],
                 head = 0, size_ch = 0 \<rparr>],
       global_error = CORO_BUS_ERR_NONE, trace = [] \<rparr>"

section \<open>Properties\<close>

subsection \<open>Helper lemmas\<close>

lemma bus_inv_nth:
  "bus_inv w \<Longrightarrow> i < length (channels w) \<Longrightarrow> channels w ! i = Some ch \<Longrightarrow> chan_inv ch"
  by (auto simp: bus_inv_def list_all_length slot_all_def split: option.splits)

lemma broadcast_scan_full:
  "Some ch \<in> set cs \<Longrightarrow> size_ch ch = size_limit ch \<Longrightarrow> broadcast_scan cs n = None"
proof (induction cs arbitrary: n)
  case Nil
  then show ?case by simp
next
  case (Cons c cs)
  then show ?case by (cases c) auto
qed

lemma size_t_add_small: "a + b < 2 ^ 64 \<Longrightarrow> size_t_add a b = a + b"
  by (simp add: size_t_add_def)

lemma size_t_sub_small: "b \<le> a \<Longrightarrow> a < 2 ^ 64 \<Longrightarrow> size_t_sub a b = a - b"
proof -
  assume le: "b \<le> a" and lt: "a < 2 ^ 64"
  then have b: "b mod 2 ^ 64 = b" by simp
  have "a + (2 ^ 64 - b) = (a - b) + 2 ^ 64" using le lt by simp
  then have "(a + (2 ^ 64 - b)) mod 2 ^ 64 = (a - b) mod 2 ^ 64" by (metis mod_add_self2)
  also have "\<dots> = a - b" using lt by simp
  finally show ?thesis unfolding size_t_sub_def b .
qed

lemma chan_ok_bounds:
  assumes "chan_ok ch"
  shows "size_ch ch \<le> size_limit ch" and "length (data ch) = size_limit ch"
    and "size_limit ch < 2 ^ 62" and "size_limit ch > 0 \<Longrightarrow> head ch < size_limit ch"
    and "size_limit ch = 0 \<Longrightarrow> head ch = 0"
  using assms by (auto simp: chan_ok_def chan_inv_def SIZE_MAX_def)

lemma bus_ok_nth:
  "bus_ok w \<Longrightarrow> i < length (channels w) \<Longrightarrow> channels w ! i = Some ch \<Longrightarrow> chan_ok ch"
  by (auto simp: bus_ok_def list_all_length slot_all_def split: option.splits)

lemma bus_ok_imp_inv: "bus_ok w \<Longrightarrow> bus_inv w"
  by (auto simp: bus_ok_def bus_inv_def list_all_length slot_all_def chan_ok_def
      split: option.splits)

lemma try_send_success:
  assumes "0 \<le> c" and "c < channel_count w" and "channels w ! nat c = Some ch"
    and "chan_ok ch" and "size_ch ch \<noteq> size_limit ch"
  shows "coro_bus_try_send w c d =
    (0, w\<lparr> channels := (channels w)[nat c := Some (ch\<lparr>
              data := (data ch)[(head ch + size_ch ch) mod size_limit ch := d],
              size_ch := size_ch ch + 1 \<rparr>)],
           global_error := CORO_BUS_ERR_NONE,
           trace := wakeup_queue_wakeup_first (recv_queue ch) (trace w) \<rparr>)"
proof -
  note b = chan_ok_bounds [OF assms(4)]
  have pos: "size_limit ch > 0" using b(1) assms(5) by simp
  have lt: "size_ch ch < size_limit ch" using b(1) assms(5) by simp
  have hs: "head ch + size_ch ch < 2 ^ 64" using b(3) b(4) [OF pos] lt by simp
  have s1: "size_t_add (size_ch ch) (Suc 0) = Suc (size_ch ch)"
    using b(3) lt by (simp add: size_t_add_def)
  show ?thesis
    using assms(1,2,3,5) pos
    by (simp add: coro_bus_try_send_def Let_def size_t_add_small [OF hs] s1)
qed

lemma try_recv_success:
  assumes "0 \<le> c" and "c < channel_count w" and "channels w ! nat c = Some ch"
    and "chan_ok ch" and "size_ch ch \<noteq> 0"
  shows "coro_bus_try_recv w c out =
    (0, (if out \<noteq> None then Some (data ch ! head ch) else out),
     w\<lparr> channels := (channels w)[nat c := Some (ch\<lparr>
              head := (head ch + 1) mod size_limit ch,
              size_ch := size_ch ch - 1 \<rparr>)],
        global_error := CORO_BUS_ERR_NONE,
        trace := wakeup_queue_wakeup_first (send_queue ch) (trace w) \<rparr>)"
proof -
  note b = chan_ok_bounds [OF assms(4)]
  have pos: "size_limit ch > 0" using b(1) assms(5) by simp
  have h1: "size_t_add (head ch) (Suc 0) = Suc (head ch)"
    using b(3) b(4) [OF pos] by (simp add: size_t_add_def)
  have s1: "size_ch ch < 2 ^ 64" using b(3) b(1) by simp
  have s2: "Suc 0 \<le> size_ch ch" using assms(5) by simp
  show ?thesis
    using assms(1,2,3,5) pos
    by (simp add: coro_bus_try_recv_def Let_def h1 size_t_sub_small [OF s2 s1])
qed

lemma ring_mod_inj_le:
  fixes h :: nat
  assumes "a \<le> b" and "b < L" and "(h + a) mod L = (h + b) mod L"
  shows "a = b"
proof -
  have "h + a \<le> h + b" using assms(1) by simp
  then have "L dvd (h + b) - (h + a)"
    using assms(3) mod_eq_dvd_iff_nat [of "h + a" "h + b" L] by simp
  then have "L dvd b - a" by simp
  moreover have "b - a < L" using assms(2) by simp
  ultimately have "b - a = 0" using nat_dvd_not_less by blast
  then show ?thesis using assms(1) by simp
qed

lemma ring_mod_inj:
  fixes h :: nat
  assumes "a < L" and "b < L" and "(h + a) mod L = (h + b) mod L"
  shows "a = b"
proof (cases "a \<le> b")
  case True
  then show ?thesis using assms ring_mod_inj_le by blast
next
  case False
  then have "b \<le> a" by simp
  then show ?thesis using assms ring_mod_inj_le [of b a L h] by simp
qed

lemma map_upt_tl: "tl (map f [0..<n]) = map (\<lambda>k. f (Suc k)) [0..<n - 1]"
proof (cases n)
  case 0
  then show ?thesis by simp
next
  case (Suc m)
  have "[0..<Suc m] = 0 # map Suc [0..<m]"
    by (simp add: upt_conv_Cons map_Suc_upt del: upt_Suc)
  then show ?thesis using Suc by (simp add: comp_def del: upt_Suc)
qed

lemma ring_push:
  assumes "chan_ok ch" and "size_ch ch \<noteq> size_limit ch"
  shows "ring_contents (ch\<lparr> data := (data ch)[(head ch + size_ch ch) mod size_limit ch := d],
                             size_ch := size_ch ch + 1 \<rparr>) = ring_contents ch @ [d]"
proof -
  note b = chan_ok_bounds [OF assms(1)]
  have lt: "size_ch ch < size_limit ch" using b(1) assms(2) by simp
  let ?L = "size_limit ch"
  let ?p = "(head ch + size_ch ch) mod ?L"
  have p: "?p < length (data ch)" using lt b(2) by simp
  have old: "(data ch)[?p := d] ! ((head ch + k) mod ?L) = data ch ! ((head ch + k) mod ?L)"
    if "k < size_ch ch" for k
  proof -
    have "(head ch + k) mod ?L \<noteq> ?p"
      using ring_mod_inj [of k ?L "size_ch ch" "head ch"] that lt by auto
    then show ?thesis by simp
  qed
  show ?thesis
    using p old by (simp add: ring_contents_def)
qed

lemma ring_pop:
  assumes "chan_ok ch" and "size_ch ch \<noteq> 0"
  shows "ring_contents (ch\<lparr> head := (head ch + 1) mod size_limit ch,
                             size_ch := size_ch ch - 1 \<rparr>) = tl (ring_contents ch)"
    and "data ch ! head ch = hd (ring_contents ch)"
proof -
  note b = chan_ok_bounds [OF assms(1)]
  have pos: "size_limit ch > 0" using b(1) assms(2) by simp
  have "(Suc (head ch) mod size_limit ch + k) mod size_limit ch
        = (head ch + Suc k) mod size_limit ch" for k
    by (simp add: mod_add_left_eq)
  then show "ring_contents (ch\<lparr> head := (head ch + 1) mod size_limit ch,
                             size_ch := size_ch ch - 1 \<rparr>) = tl (ring_contents ch)"
    by (simp add: ring_contents_def map_upt_tl)
  have "[0..<size_ch ch] = 0 # [Suc 0..<size_ch ch]"
    using assms(2) by (simp add: upt_conv_Cons)
  then show "data ch ! head ch = hd (ring_contents ch)"
    using b(4) [OF pos] by (simp add: ring_contents_def)
qed

lemma push_ok:
  assumes "chan_ok ch" and "size_ch ch \<noteq> size_limit ch"
  shows "chan_ok (ch\<lparr> data := (data ch)[p := d], size_ch := size_ch ch + 1 \<rparr>)"
  using assms by (auto simp: chan_ok_def chan_inv_def)

lemma send_v_loop_spec:
  assumes "chan_ok ch" and "size_ch ch + length xs \<le> size_limit ch"
  shows "chan_ok (send_v_loop ch xs)
       \<and> size_ch (send_v_loop ch xs) = size_ch ch + length xs
       \<and> head (send_v_loop ch xs) = head ch
       \<and> size_limit (send_v_loop ch xs) = size_limit ch
       \<and> send_queue (send_v_loop ch xs) = send_queue ch
       \<and> recv_queue (send_v_loop ch xs) = recv_queue ch
       \<and> ring_contents (send_v_loop ch xs) = ring_contents ch @ xs"
  using assms
proof (induction xs arbitrary: ch)
  case Nil
  then show ?case by simp
next
  case (Cons x xs)
  note b = chan_ok_bounds [OF Cons.prems(1)]
  have lt: "size_ch ch < size_limit ch" using Cons.prems(2) by simp
  then have ne: "size_ch ch \<noteq> size_limit ch" by simp
  have pos: "size_limit ch > 0" using lt by simp
  have hs: "size_t_add (head ch) (size_ch ch) = head ch + size_ch ch"
    using b(3) b(4) [OF pos] lt by (simp add: size_t_add_def)
  have s1: "size_t_add (size_ch ch) (Suc 0) = Suc (size_ch ch)"
    using b(3) lt by (simp add: size_t_add_def)
  let ?ch1 = "ch\<lparr> data := (data ch)[(head ch + size_ch ch) mod size_limit ch := x],
                   size_ch := size_ch ch + 1 \<rparr>"
  have step: "send_v_loop ch (x # xs) = send_v_loop ?ch1 xs"
    by (simp add: hs s1)
  have ok1: "chan_ok ?ch1" using push_ok [OF Cons.prems(1) ne] .
  have len1: "size_ch ?ch1 + length xs \<le> size_limit ?ch1" using Cons.prems(2) by simp
  have ring1: "ring_contents ?ch1 = ring_contents ch @ [x]"
    using ring_push [OF Cons.prems(1) ne] .
  show ?case
    unfolding step using Cons.IH [OF ok1 len1] ring1 by simp
qed


lemma int_of_size_t_small: "n < 2 ^ 31 \<Longrightarrow> int_of_size_t n = int n"
  by (simp add: int_of_size_t_def)

lemma try_send_v_success:
  assumes "0 \<le> c" and "c < channel_count w" and "channels w ! nat c = Some ch"
    and "chan_ok ch" and "size_ch ch \<noteq> size_limit ch"
  shows "coro_bus_try_send_v w c ws =
    (let n = min (length ws) (size_limit ch - size_ch ch);
         ch' = send_v_loop ch (take n ws)
     in (int_of_size_t n,
         w\<lparr> channels := (channels w)[nat c := Some ch'],
            global_error := CORO_BUS_ERR_NONE,
            trace := (if 0 < n then wakeup_queue_wakeup_first (recv_queue ch) (trace w)
                      else trace w) \<rparr>))"
proof -
  note b = chan_ok_bounds [OF assms(4)]
  have fs: "size_t_sub (size_limit ch) (size_ch ch) = size_limit ch - size_ch ch"
    using b(1,3) by (simp add: size_t_sub_small)
  let ?n = "min (length ws) (size_limit ch - size_ch ch)"
  have n: "(if size_limit ch - size_ch ch < length ws then size_limit ch - size_ch ch
            else length ws) = ?n" by (simp add: min_def)
  have "size_ch ch + length (take ?n ws) \<le> size_limit ch" using b(1) by simp
  then have rq: "recv_queue (send_v_loop ch (take ?n ws)) = recv_queue ch"
    using send_v_loop_spec [OF assms(4)] by blast
  show ?thesis
    using assms(1,2,3,5)
    by (simp add: coro_bus_try_send_v_def Let_def fs n rq)
qed

lemma int_of_size_t_nonneg: "n < 2 ^ 31 \<Longrightarrow> 0 \<le> int_of_size_t n"
  by (simp add: int_of_size_t_def)

lemma try_send_cases:
  assumes "coro_bus_try_send w c d = (rc, w')"
  shows "(rc = 0 \<and> global_error w' = CORO_BUS_ERR_NONE \<and> valid_channel w c)
       \<or> (rc = - 1 \<and> \<not> valid_channel w c \<and> w' = w\<lparr> global_error := CORO_BUS_ERR_NO_CHANNEL \<rparr>)
       \<or> (rc = - 1 \<and> valid_channel w c \<and> w' = w\<lparr> global_error := CORO_BUS_ERR_WOULD_BLOCK \<rparr>)"
  using assms
  by (auto simp: coro_bus_try_send_def valid_channel_def Let_def split: if_splits)

lemma try_recv_cases:
  assumes "coro_bus_try_recv w c out = (rc, out', w')"
  shows "(rc = 0 \<and> global_error w' = CORO_BUS_ERR_NONE \<and> valid_channel w c)
       \<or> (rc = - 1 \<and> \<not> valid_channel w c \<and> w' = w\<lparr> global_error := CORO_BUS_ERR_NO_CHANNEL \<rparr>)
       \<or> (rc = - 1 \<and> valid_channel w c \<and> w' = w\<lparr> global_error := CORO_BUS_ERR_WOULD_BLOCK \<rparr>)"
  using assms
  by (auto simp: coro_bus_try_recv_def valid_channel_def Let_def split: if_splits)

lemma try_send_v_cases:
  assumes "coro_bus_try_send_v w c ws = (rc, w')"
  shows "((0 \<le> rc \<or> 2 ^ 31 \<le> length ws) \<and> global_error w' = CORO_BUS_ERR_NONE
          \<and> valid_channel w c)
       \<or> (rc = - 1 \<and> \<not> valid_channel w c \<and> w' = w\<lparr> global_error := CORO_BUS_ERR_NO_CHANNEL \<rparr>)
       \<or> (rc = - 1 \<and> valid_channel w c \<and> w' = w\<lparr> global_error := CORO_BUS_ERR_WOULD_BLOCK \<rparr>)"
  using assms
  by (auto simp: coro_bus_try_send_v_def valid_channel_def Let_def
      intro!: int_of_size_t_nonneg split: if_splits)

lemma try_recv_v_cases:
  assumes "coro_bus_try_recv_v w c cap = (rc, xs, w')"
  shows "((0 \<le> rc \<or> 2 ^ 31 \<le> cap) \<and> global_error w' = CORO_BUS_ERR_NONE
          \<and> valid_channel w c)
       \<or> (rc = - 1 \<and> \<not> valid_channel w c \<and> w' = w\<lparr> global_error := CORO_BUS_ERR_NO_CHANNEL \<rparr>)
       \<or> (rc = - 1 \<and> valid_channel w c \<and> w' = w\<lparr> global_error := CORO_BUS_ERR_WOULD_BLOCK \<rparr>)"
  using assms
  by (auto simp: coro_bus_try_recv_v_def valid_channel_def Let_def
      intro!: int_of_size_t_nonneg split: if_splits prod.splits)

lemma broadcast_scan_count:
  "broadcast_scan cs n = Some m \<Longrightarrow> n \<le> m \<and> (m = n \<longrightarrow> list_all (\<lambda>s. s = None) cs)"
proof (induction cs arbitrary: n)
  case Nil
  then show ?case by simp
next
  case (Cons c cs)
  then show ?case
  proof (cases c)
    case None
    then show ?thesis using Cons.IH [of n] Cons.prems by simp
  next
    case (Some ch)
    then have "broadcast_scan cs (n + 1) = Some m"
      using Cons.prems by (simp split: if_splits)
    then have "n + 1 \<le> m" using Cons.IH by blast
    then show ?thesis by simp
  qed
qed

lemma try_broadcast_cases:
  assumes "coro_bus_try_broadcast w d = (rc, w')"
  shows "(rc = 0 \<and> global_error w' = CORO_BUS_ERR_NONE)
       \<or> (rc = - 1 \<and> w' = w\<lparr> global_error := CORO_BUS_ERR_NO_CHANNEL \<rparr>
           \<and> list_all (\<lambda>s. s = None) (channels w))
       \<or> (rc = - 1 \<and> w' = w\<lparr> global_error := CORO_BUS_ERR_WOULD_BLOCK \<rparr>)"
  using assms
  by (auto simp: coro_bus_try_broadcast_def Let_def dest: broadcast_scan_count
      split: if_splits prod.splits option.splits)

lemma close_global_error [simp]:
  "global_error (coro_bus_channel_close w c) = global_error w"
  by (auto simp: coro_bus_channel_close_def Let_def split: prod.splits option.splits)

lemma fold_preserves:
  assumes "\<And>i w. P w \<Longrightarrow> P (f i w)" and "P w"
  shows "P (fold f is w)"
  using assms(2) by (induction "is" arbitrary: w) (simp_all add: assms(1))

lemma delete_global_error:
  "global_error (coro_bus_delete b w) = global_error w"
proof (cases b)
  case True
  then show ?thesis by (simp add: coro_bus_delete_def)
next
  case False
  let ?f = "\<lambda>i w'. if channels w' ! i \<noteq> None
                     then coro_bus_channel_close w' (int i) else w'"
  have "global_error (fold ?f [0..<length (channels w)] w) = global_error w"
    by (rule fold_preserves [where P = "\<lambda>w'. global_error w' = global_error w"]) simp_all
  then show ?thesis using False by (simp add: coro_bus_delete_def Let_def)
qed

lemma run_blocking_returned:
  "run_blocking iter resume envs w = Some (r, w') \<Longrightarrow> \<exists>w0. iter w0 = Returned r w'"
proof (induction envs arbitrary: w)
  case Nil
  then show ?case by (auto split: outcome.splits)
next
  case (Cons e es)
  then show ?case by (cases "iter w") auto
qed


lemma valid_channel_error [simp]:
  "valid_channel (w\<lparr> global_error := e \<rparr>) c = valid_channel w c"
  by (simp add: valid_channel_def channel_count_def)

lemma wake_next_sender_error [simp]:
  "global_error (wake_next_sender w c) = global_error w"
  by (simp add: wake_next_sender_def split: option.splits)

lemma wake_next_receiver_error [simp]:
  "global_error (wake_next_receiver w c) = global_error w"
  by (simp add: wake_next_receiver_def split: option.splits)

lemma send_iter_returned:
  assumes "coro_bus_send_iter self c d w = Returned rc w'"
  shows "(rc = 0 \<and> global_error w' = CORO_BUS_ERR_NONE)
       \<or> (rc = - 1 \<and> global_error w' = CORO_BUS_ERR_NO_CHANNEL \<and> \<not> valid_channel w' c)"
proof -
  obtain rc1 w1 where t: "coro_bus_try_send w c d = (rc1, w1)" by (cases "coro_bus_try_send w c d")
  show ?thesis
    using try_send_cases [OF t] assms
    by (auto simp: coro_bus_send_iter_def t valid_channel_def channel_count_def split: if_splits)
qed

lemma recv_iter_returned:
  assumes "coro_bus_recv_iter self c out w = Returned (rc, out') w'"
  shows "(rc = 0 \<and> global_error w' = CORO_BUS_ERR_NONE)
       \<or> (rc = - 1 \<and> global_error w' = CORO_BUS_ERR_NO_CHANNEL \<and> \<not> valid_channel w' c)"
proof -
  obtain rc1 out1 w1 where t: "coro_bus_try_recv w c out = (rc1, out1, w1)"
    by (cases "coro_bus_try_recv w c out")
  show ?thesis
    using try_recv_cases [OF t] assms
    by (auto simp: coro_bus_recv_iter_def t valid_channel_def channel_count_def split: if_splits)
qed

lemma broadcast_iter_returned:
  assumes "coro_bus_broadcast_iter self d w = Returned rc w'"
  shows "(rc = 0 \<and> global_error w' = CORO_BUS_ERR_NONE)
       \<or> (rc = - 1 \<and> global_error w' = CORO_BUS_ERR_NO_CHANNEL
           \<and> list_all (\<lambda>s. s = None) (channels w'))"
proof -
  obtain rc1 w1 where t: "coro_bus_try_broadcast w d = (rc1, w1)"
    by (cases "coro_bus_try_broadcast w d")
  show ?thesis
    using try_broadcast_cases [OF t] assms
    by (auto simp: coro_bus_broadcast_iter_def t split: if_splits option.splits)
qed

lemma send_v_iter_returned:
  assumes "coro_bus_send_v_iter self c ws w = Returned rc w'"
  shows "(0 \<le> rc \<and> global_error w' = CORO_BUS_ERR_NONE)
       \<or> (rc = - 1 \<and> global_error w' = CORO_BUS_ERR_NO_CHANNEL \<and> \<not> valid_channel w' c)
       \<or> (rc = - 1 \<and> global_error w' = CORO_BUS_ERR_NONE \<and> 2 ^ 31 \<le> length ws)"
proof -
  obtain rc1 w1 where t: "coro_bus_try_send_v w c ws = (rc1, w1)"
    by (cases "coro_bus_try_send_v w c ws")
  show ?thesis
    using try_send_v_cases [OF t] assms
    by (auto simp: coro_bus_send_v_iter_def t valid_channel_def channel_count_def
        split: if_splits)
qed

lemma recv_v_iter_returned:
  assumes "coro_bus_recv_v_iter self c cap w = Returned (rc, xs) w'"
  shows "(0 \<le> rc \<and> global_error w' = CORO_BUS_ERR_NONE)
       \<or> (rc = - 1 \<and> global_error w' = CORO_BUS_ERR_NO_CHANNEL \<and> \<not> valid_channel w' c)
       \<or> (rc = - 1 \<and> global_error w' = CORO_BUS_ERR_NONE \<and> 2 ^ 31 \<le> cap)"
proof -
  obtain rc1 xs1 w1 where t: "coro_bus_try_recv_v w c cap = (rc1, xs1, w1)"
    by (cases "coro_bus_try_recv_v w c cap")
  show ?thesis
    using try_recv_v_cases [OF t] assms
    by (auto simp: coro_bus_recv_v_iter_def t valid_channel_def channel_count_def
        split: if_splits)
qed

lemmas eval_defs = full_world_def empty_world_def close_channel_0_def
  coro_bus_send_def coro_bus_recv_def coro_bus_broadcast_def coro_bus_send_v_def
  coro_bus_recv_v_def coro_bus_send_iter_def coro_bus_recv_iter_def
  coro_bus_broadcast_iter_def coro_bus_send_v_iter_def coro_bus_recv_v_iter_def
  coro_bus_try_send_def coro_bus_try_recv_def coro_bus_try_broadcast_def
  coro_bus_try_send_v_def coro_bus_try_recv_v_def
  coro_bus_channel_close_def channel_destroy_def channel_count_def
  suspend_on_send_queue_def suspend_on_recv_queue_def resume_on_send_queue_def
  resume_on_recv_queue_def wakeup_queue_suspend_this_def wakeup_queue_resume_this_def
  wakeup_queue_wakeup_first_def wake_next_sender_def wake_next_receiver_def
  valid_channel_def size_t_add_def size_t_sub_def int_of_size_t_def Let_def

lemma open_cases:
  assumes "coro_bus_channel_open al w n = Opened r w'"
  shows "(r = - 1 \<and> w' = w \<and> \<not> malloc_ok al)
       \<or> (0 \<le> r \<and> global_error w' = CORO_BUS_ERR_NONE)"
  using assms
  by (auto simp: coro_bus_channel_open_def channel_count_def split: option.splits if_splits)

lemma new_cases:
  "coro_bus_new al w = (if malloc_ok al
      then (True, w\<lparr> channels := [], global_error := CORO_BUS_ERR_NONE \<rparr>) else (False, w))"
  by (simp add: coro_bus_new_def)

lemma recv_v_loop_numeral:
  "recv_v_loop (numeral k) ch =
     (let x = data ch ! head ch;
          (xs, ch1) = recv_v_loop (pred_numeral k)
                        (ch\<lparr> head := size_t_add (head ch) 1 mod size_limit ch \<rparr>)
      in (x # xs, ch1))"
  by (simp add: numeral_eq_Suc)

lemma wakeup_all_spec:
  "wakeup_queue_wakeup_all queue tr = ([], tr @ map Coro_wakeup queue)"
  by (induction queue arbitrary: tr) simp_all

lemma find_free_slot_None_iff: "find_free_slot cs k = None \<longleftrightarrow> None \<notin> set cs"
proof (induction cs arbitrary: k)
  case Nil
  then show ?case by simp
next
  case (Cons c cs)
  then show ?case by (cases c) auto
qed

lemma find_free_slot_lowest:
  "i < length cs \<Longrightarrow> cs ! i = None \<Longrightarrow> (\<forall>j<i. cs ! j \<noteq> None)
   \<Longrightarrow> find_free_slot cs k = Some (k + i)"
proof (induction cs arbitrary: i k)
  case Nil
  then show ?case by simp
next
  case (Cons c cs)
  show ?case
  proof (cases i)
    case 0
    then show ?thesis using Cons.prems by simp
  next
    case (Suc i')
    have "(c # cs) ! 0 \<noteq> None" using Cons.prems(3) Suc by blast
    then obtain ch where c: "c = Some ch" by auto
    have "\<forall>j<i'. cs ! j \<noteq> None"
    proof (intro allI impI)
      fix j assume "j < i'"
      then have "Suc j < i" using Suc by simp
      then have "(c # cs) ! Suc j \<noteq> None" using Cons.prems(3) by blast
      then show "cs ! j \<noteq> None" by simp
    qed
    then have "find_free_slot cs (Suc k) = Some (Suc k + i')"
      using Cons.IH [of i' "Suc k"] Cons.prems(1,2) Suc by simp
    then show ?thesis using c Suc by simp
  qed
qed

lemma find_free_slot_Some:
  "find_free_slot cs k = Some i \<Longrightarrow>
     k \<le> i \<and> i - k < length cs \<and> cs ! (i - k) = None \<and> (\<forall>j<i - k. cs ! j \<noteq> None)"
proof (induction cs arbitrary: k)
  case Nil
  then show ?case by simp
next
  case (Cons c cs)
  show ?case
  proof (cases c)
    case None
    then show ?thesis using Cons.prems by simp
  next
    case (Some ch)
    then have f: "find_free_slot cs (Suc k) = Some i" using Cons.prems by simp
    note ih = Cons.IH [OF f]
    have "Suc k \<le> i" using ih by blast
    then have ik: "i - k = Suc (i - Suc k)" by arith
    have "\<forall>j<i - k. (c # cs) ! j \<noteq> None"
    proof (intro allI impI)
      fix j assume j: "j < i - k"
      show "(c # cs) ! j \<noteq> None"
      proof (cases j)
        case 0
        then show ?thesis using Some by simp
      next
        case (Suc j')
        then have "j' < i - Suc k" using j ik by simp
        then show ?thesis using ih Suc by simp
      qed
    qed
    then show ?thesis using ih ik by simp
  qed
qed


lemma open_result_slot:
  assumes "coro_bus_channel_open al w n = Opened r w'" and "0 \<le> r"
  shows "nat r < length (channels w') \<and> channels w' ! nat r \<noteq> None
       \<and> (\<forall>j<nat r. channels w' ! j \<noteq> None)"
proof (cases "find_free_slot (channels w) 0")
  case None
  then have full: "None \<notin> set (channels w)" by (simp add: find_free_slot_None_iff)
  have r: "r = int (length (channels w))"
    and w': "channels w' = channels w @ [Some (channel_init al n)]"
    using assms None
    by (auto simp: coro_bus_channel_open_def channel_count_def split: if_splits)
  have "\<forall>j<length (channels w). channels w ! j \<noteq> None"
    using full by (metis nth_mem)
  then show ?thesis using r w' by (simp add: nth_append)
next
  case (Some i)
  note f = find_free_slot_Some [OF Some]
  have r: "r = int i" and w': "channels w' = (channels w)[i := Some (channel_init al n)]"
    using assms Some by (auto simp: coro_bus_channel_open_def split: if_splits)
  show ?thesis using f r w' by simp
qed

lemma close_channels:
  "channels (coro_bus_channel_close w c) =
     (if valid_channel w c then (channels w)[nat c := None] else channels w)"
  by (auto simp: coro_bus_channel_close_def valid_channel_def Let_def
      split: prod.splits option.splits)

lemma open_after_close:
  assumes "coro_bus_channel_open al w n = Opened r w1" and "0 \<le> r"
    and "\<not> new_throws al' n'"
  shows "coro_bus_channel_open al' (coro_bus_channel_close w1 r) n' =
      Opened r ((coro_bus_channel_close w1 r)
        \<lparr> channels := (channels (coro_bus_channel_close w1 r))[nat r := Some (channel_init al' n')],
           global_error := CORO_BUS_ERR_NONE \<rparr>)"
proof -
  note s = open_result_slot [OF assms(1,2)]
  obtain ch where ch: "channels w1 ! nat r = Some ch" using s by auto
  have rc: "r < channel_count w1" using s assms(2) by (simp add: channel_count_def nat_less_iff)
  have cl: "channels (coro_bus_channel_close w1 r) = (channels w1)[nat r := None]"
    using assms(2) rc ch by (simp add: close_channels valid_channel_def)
  have "find_free_slot ((channels w1)[nat r := None]) 0 = Some (0 + nat r)"
    using s by (intro find_free_slot_lowest) simp_all
  then show ?thesis
    using assms(2,3) by (simp add: coro_bus_channel_open_def cl)
qed


lemma open_reuses:
  assumes "i < length (channels w)" and "channels w ! i = None"
    and "\<forall>j<i. channels w ! j \<noteq> None" and "\<not> new_throws al n"
  shows "coro_bus_channel_open al w n =
      Opened (int i) (w\<lparr> channels := (channels w)[i := Some (channel_init al n)],
                         global_error := CORO_BUS_ERR_NONE \<rparr>)"
proof -
  have "find_free_slot (channels w) 0 = Some (0 + i)"
    using assms(1,2,3) by (rule find_free_slot_lowest)
  then show ?thesis using assms(4) by (simp add: coro_bus_channel_open_def)
qed

lemma open_grows:
  assumes "None \<notin> set (channels w)" and "malloc_ok al" and "\<not> new_throws al n"
    and "channel_count w < INT_MAX"
  shows "coro_bus_channel_open al w n =
      Opened (channel_count w) (w\<lparr> channels := channels w @ [Some (channel_init al n)],
                                   global_error := CORO_BUS_ERR_NONE \<rparr>)"
proof -
  have "find_free_slot (channels w) 0 = None"
    using assms(1) by (simp add: find_free_slot_None_iff)
  then show ?thesis using assms(2,3,4) by (simp add: coro_bus_channel_open_def)
qed

lemma open_many_grows:
  assumes "None \<notin> set (channels w)" and "malloc_ok al" and "\<forall>n\<in>set ns. \<not> new_throws al n"
    and "int (length (channels w) + length ns) \<le> INT_MAX"
  shows "\<exists>w'. open_many al ns w =
      Some (map int [length (channels w)..<length (channels w) + length ns], w')"
  using assms
proof (induction ns arbitrary: w)
  case Nil
  then show ?case by simp
next
  case (Cons n ns)
  let ?w1 = "w\<lparr> channels := channels w @ [Some (channel_init al n)],
                 global_error := CORO_BUS_ERR_NONE \<rparr>"
  have lt: "channel_count w < INT_MAX" using Cons.prems(4) by (simp add: channel_count_def)
  have o: "coro_bus_channel_open al w n = Opened (channel_count w) ?w1"
    using open_grows [OF Cons.prems(1,2) _ lt] Cons.prems(3) by simp
  have full1: "None \<notin> set (channels ?w1)" using Cons.prems(1) by simp
  have len1: "int (length (channels ?w1) + length ns) \<le> INT_MAX" using Cons.prems(4) by simp
  have "\<forall>n\<in>set ns. \<not> new_throws al n" using Cons.prems(3) by simp
  then obtain w' where
    m: "open_many al ns ?w1 =
      Some (map int [length (channels ?w1)..<length (channels ?w1) + length ns], w')"
    using Cons.IH [OF full1 Cons.prems(2) _ len1] by blast
  have "[length (channels w)..<length (channels w) + length (n # ns)]
      = length (channels w) # [length (channels ?w1)..<length (channels ?w1) + length ns]"
    by (subst upt_rec) simp
  then show ?case using o m by (simp add: channel_count_def)
qed

lemma wakeup_first_append:
  "wakeup_queue_wakeup_first q tr = tr @ wakeup_queue_wakeup_first q []"
  by (simp add: wakeup_queue_wakeup_first_def)

lemma broadcast_scan_not_full:
  "broadcast_scan cs n = Some m \<Longrightarrow> Some ch \<in> set cs \<Longrightarrow> size_ch ch \<noteq> size_limit ch"
  using broadcast_scan_full by fastforce

lemma broadcast_put_queues [simp]:
  "recv_queue (broadcast_put d ch) = recv_queue ch"
  "send_queue (broadcast_put d ch) = send_queue ch"
  by (simp_all add: broadcast_put_def Let_def)

lemma broadcast_deliver_spec:
  "broadcast_deliver d cs tr =
     (map (map_option (broadcast_put d)) cs, tr @ concat (map wake_first_events cs))"
proof (induction cs arbitrary: tr)
  case Nil
  then show ?case by simp
next
  case (Cons c cs)
  show ?case
  proof (cases c)
    case None
    then show ?thesis using Cons.IH by (simp add: wake_first_events_def)
  next
    case (Some ch)
    then show ?thesis
      using Cons.IH by (simp add: wake_first_events_def wakeup_queue_wakeup_first_def)
  qed
qed

lemma broadcast_put_ok:
  assumes "chan_ok ch" and "size_ch ch \<noteq> size_limit ch"
  shows "broadcast_put d ch =
      ch\<lparr> data := (data ch)[(head ch + size_ch ch) mod size_limit ch := d],
          size_ch := size_ch ch + 1 \<rparr>"
proof -
  note b = chan_ok_bounds [OF assms(1)]
  have lt: "size_ch ch < size_limit ch" using b(1) assms(2) by simp
  then have pos: "size_limit ch > 0" by simp
  have hs: "size_t_add (head ch) (size_ch ch) = head ch + size_ch ch"
    using b(3) b(4) [OF pos] lt by (simp add: size_t_add_def)
  have s1: "size_t_add (size_ch ch) (Suc 0) = Suc (size_ch ch)"
    using b(3) lt by (simp add: size_t_add_def)
  show ?thesis using pos by (simp add: broadcast_put_def Let_def hs s1)
qed

lemma try_broadcast_success:
  assumes "coro_bus_try_broadcast w d = (0, w')"
  shows "w' = w\<lparr> channels := map (map_option (broadcast_put d)) (channels w),
                 trace := trace w @ concat (map wake_first_events (channels w)),
                 global_error := CORO_BUS_ERR_NONE \<rparr>
       \<and> (\<forall>ch. Some ch \<in> set (channels w) \<longrightarrow> size_ch ch \<noteq> size_limit ch)"
  using assms
  by (auto simp: coro_bus_try_broadcast_def broadcast_deliver_spec
      dest: broadcast_scan_not_full split: option.splits if_splits)

lemma try_broadcast_failure:
  assumes "coro_bus_try_broadcast w d = (rc, w')" and "rc \<noteq> 0"
  shows "rc = - 1 \<and> channels w' = channels w \<and> trace w' = trace w"
  using try_broadcast_cases [OF assms(1)] assms(2) by auto

lemma bus_ok_fields [simp]:
  "bus_ok (w\<lparr> global_error := e \<rparr>) = bus_ok w"
  "bus_ok (w\<lparr> trace := tr \<rparr>) = bus_ok w"
  by (simp_all add: bus_ok_def)

lemma chan_ok_queues [simp]:
  "chan_ok (ch\<lparr> send_queue := q \<rparr>) = chan_ok ch"
  "chan_ok (ch\<lparr> recv_queue := q \<rparr>) = chan_ok ch"
  by (simp_all add: chan_ok_def chan_inv_def)

lemma list_all_update:
  "list_all P xs \<Longrightarrow> P x \<Longrightarrow> list_all P (xs[i := x])"
  by (auto simp: list_all_iff dest: set_update_subset_insert [THEN subsetD])

lemma bus_ok_update_Some:
  "bus_ok w \<Longrightarrow> chan_ok ch \<Longrightarrow> bus_ok (w\<lparr> channels := (channels w)[i := Some ch] \<rparr>)"
  by (simp add: bus_ok_def list_all_update slot_all_def)

lemma bus_ok_update_None:
  "bus_ok w \<Longrightarrow> bus_ok (w\<lparr> channels := (channels w)[i := None] \<rparr>)"
  by (simp add: bus_ok_def list_all_update slot_all_def)

lemma bus_ok_channels_eq: "channels w' = channels w \<Longrightarrow> bus_ok w' = bus_ok w"
  by (simp add: bus_ok_def)

lemma bus_ok_bounds:
  assumes "bus_ok w" and "i < length (channels w)" and "channels w ! i = Some ch"
  shows "size_ch ch \<le> size_limit ch \<and> head ch < max (size_limit ch) 1
       \<and> (size_limit ch = 0 \<longrightarrow> size_ch ch = 0)"
  using bus_ok_nth [OF assms] by (auto simp: chan_ok_def chan_inv_def)

lemma pop_ok:
  assumes "chan_ok ch" and "size_ch ch \<noteq> 0"
  shows "chan_ok (ch\<lparr> head := (head ch + 1) mod size_limit ch, size_ch := size_ch ch - 1 \<rparr>)"
  using assms by (auto simp: chan_ok_def chan_inv_def)

lemma channel_init_ok: "\<not> new_throws al n \<Longrightarrow> chan_ok (channel_init al n)"
  by (auto simp: channel_init_def chan_ok_def chan_inv_def new_throws_def)

lemma bus_new_ok: "bus_ok w \<Longrightarrow> bus_ok (snd (coro_bus_new al w))"
  by (simp add: coro_bus_new_def bus_ok_def)

lemma open_ok:
  assumes "bus_ok w" and "coro_bus_channel_open al w n = Opened r w'"
  shows "bus_ok w'"
proof (cases "new_throws al n")
  case True
  then have "w' = w" using assms(2)
    by (auto simp: coro_bus_channel_open_def split: option.splits if_splits)
  then show ?thesis using assms(1) by simp
next
  case False
  note ok = channel_init_ok [OF False]
  have app: "bus_ok (w\<lparr> channels := channels w @ [Some (channel_init al n)] \<rparr>)"
    using assms(1) ok by (simp add: bus_ok_def slot_all_def)
  show ?thesis
    using assms app bus_ok_update_Some [OF assms(1) ok]
    by (auto simp: coro_bus_channel_open_def split: option.splits if_splits)
qed

lemma close_ok: "bus_ok w \<Longrightarrow> bus_ok (coro_bus_channel_close w c)"
proof -
  assume ok: "bus_ok w"
  have "bus_ok (w\<lparr> channels := channels (coro_bus_channel_close w c) \<rparr>)"
    using ok bus_ok_update_None [OF ok] by (simp add: close_channels)
  then show ?thesis by (simp add: bus_ok_def)
qed

lemma delete_ok: "bus_ok w \<Longrightarrow> bus_ok (coro_bus_delete b w)"
  by (simp add: coro_bus_delete_def bus_ok_def Let_def)

lemma valid_channelD:
  assumes "valid_channel w c"
  obtains ch where "0 \<le> c" and "c < channel_count w" and "channels w ! nat c = Some ch"
    and "nat c < length (channels w)"
  using assms by (auto simp: valid_channel_def channel_count_def)

lemma try_send_ok:
  assumes "bus_ok w"
  shows "bus_ok (snd (coro_bus_try_send w c d))"
proof (cases "valid_channel w c")
  case False
  then show ?thesis using assms by (simp add: coro_bus_try_send_def valid_channel_def)
next
  case True
  then obtain ch where v: "0 \<le> c" "c < channel_count w" "channels w ! nat c = Some ch"
    "nat c < length (channels w)" by (rule valid_channelD)
  have ok: "chan_ok ch" using assms v(4,3) by (rule bus_ok_nth)
  show ?thesis
  proof (cases "size_ch ch = size_limit ch")
    case True
    then show ?thesis using assms v by (simp add: coro_bus_try_send_def)
  next
    case False
    show ?thesis
      unfolding try_send_success [OF v(1,2,3) ok False]
      using bus_ok_update_Some [OF assms push_ok [OF ok False]] by simp
  qed
qed

lemma try_recv_ok:
  assumes "bus_ok w"
  shows "bus_ok (snd (snd (coro_bus_try_recv w c out)))"
proof (cases "valid_channel w c")
  case False
  then show ?thesis using assms by (simp add: coro_bus_try_recv_def valid_channel_def)
next
  case True
  then obtain ch where v: "0 \<le> c" "c < channel_count w" "channels w ! nat c = Some ch"
    "nat c < length (channels w)" by (rule valid_channelD)
  have ok: "chan_ok ch" using assms v(4,3) by (rule bus_ok_nth)
  show ?thesis
  proof (cases "size_ch ch = 0")
    case True
    then show ?thesis using assms v by (simp add: coro_bus_try_recv_def)
  next
    case False
    show ?thesis
      unfolding try_recv_success [OF v(1,2,3) ok False]
      using bus_ok_update_Some [OF assms pop_ok [OF ok False]] by simp
  qed
qed

lemma try_send_v_ok:
  assumes "bus_ok w"
  shows "bus_ok (snd (coro_bus_try_send_v w c ws))"
proof (cases "valid_channel w c")
  case False
  then show ?thesis using assms by (simp add: coro_bus_try_send_v_def valid_channel_def)
next
  case True
  then obtain ch where v: "0 \<le> c" "c < channel_count w" "channels w ! nat c = Some ch"
    "nat c < length (channels w)" by (rule valid_channelD)
  have ok: "chan_ok ch" using assms v(4,3) by (rule bus_ok_nth)
  show ?thesis
  proof (cases "size_ch ch = size_limit ch")
    case True
    then show ?thesis using assms v by (simp add: coro_bus_try_send_v_def)
  next
    case False
    let ?n = "min (length ws) (size_limit ch - size_ch ch)"
    have "size_ch ch + length (take ?n ws) \<le> size_limit ch"
      using chan_ok_bounds(1) [OF ok] by simp
    then have "chan_ok (send_v_loop ch (take ?n ws))"
      using send_v_loop_spec [OF ok] by blast
    then show ?thesis
      unfolding try_send_v_success [OF v(1,2,3) ok False]
      using bus_ok_update_Some [OF assms] by (simp add: Let_def)
  qed
qed




lemma recv_v_loop_spec:
  assumes "size_limit ch > 0" and "head ch < size_limit ch" and "size_limit ch < 2 ^ 62"
  shows "recv_v_loop n ch =
      (map (\<lambda>k. data ch ! ((head ch + k) mod size_limit ch)) [0..<n],
       ch\<lparr> head := (head ch + n) mod size_limit ch \<rparr>)"
  using assms
proof (induction n arbitrary: ch)
  case 0
  then show ?case by simp
next
  case (Suc n)
  have h1: "size_t_add (head ch) (Suc 0) = Suc (head ch)"
    using Suc.prems(2,3) by (simp add: size_t_add_def)
  let ?ch1 = "ch\<lparr> head := (head ch + 1) mod size_limit ch \<rparr>"
  have ih: "recv_v_loop n ?ch1 =
      (map (\<lambda>k. data ?ch1 ! ((head ?ch1 + k) mod size_limit ?ch1)) [0..<n],
       ?ch1\<lparr> head := (head ?ch1 + n) mod size_limit ?ch1 \<rparr>)"
    using Suc.prems by (intro Suc.IH) simp_all
  have idx: "((head ch + 1) mod size_limit ch + k) mod size_limit ch
      = (head ch + Suc k) mod size_limit ch" for k
    by (simp add: mod_add_left_eq)
  have lst: "[0..<Suc n] = 0 # map Suc [0..<n]"
    by (simp add: upt_conv_Cons map_Suc_upt del: upt_Suc)
  have hd0: "head ch mod size_limit ch = head ch" using Suc.prems(2) by simp
  show ?case
    unfolding lst
    using ih idx hd0 by (simp add: h1 comp_def del: upt_Suc)
qed


lemma try_recv_v_success:
  assumes "0 \<le> c" and "c < channel_count w" and "channels w ! nat c = Some ch"
    and "chan_ok ch" and "size_ch ch \<noteq> 0"
  shows "coro_bus_try_recv_v w c cap =
    (let n = min cap (size_ch ch)
     in (int_of_size_t n, take n (ring_contents ch),
         w\<lparr> channels := (channels w)[nat c := Some (ch\<lparr>
                  head := (head ch + n) mod size_limit ch,
                  size_ch := size_ch ch - n \<rparr>)],
            global_error := CORO_BUS_ERR_NONE,
            trace := wakeup_queue_wakeup_first (send_queue ch) (trace w) \<rparr>))"
proof -
  note b = chan_ok_bounds [OF assms(4)]
  have pos: "size_limit ch > 0" using b(1) assms(5) by simp
  let ?n = "min cap (size_ch ch)"
  have n: "(if size_ch ch < cap then size_ch ch else cap) = ?n" by (simp add: min_def)
  have loop: "recv_v_loop ?n ch =
      (map (\<lambda>k. data ch ! ((head ch + k) mod size_limit ch)) [0..<?n],
       ch\<lparr> head := (head ch + ?n) mod size_limit ch \<rparr>)"
    using pos b(4) [OF pos] b(3) by (rule recv_v_loop_spec)
  have tk: "map (\<lambda>k. data ch ! ((head ch + k) mod size_limit ch)) [0..<?n]
      = take ?n (ring_contents ch)"
    by (simp add: ring_contents_def take_map min_def)
  have sub: "size_t_sub (size_ch ch) ?n = size_ch ch - ?n"
    using b(1,3) by (intro size_t_sub_small) simp_all
  show ?thesis
    using assms(1,2,3,5)
    by (simp add: coro_bus_try_recv_v_def n loop tk sub Let_def)
qed


lemma pop_n_ok:
  assumes "chan_ok ch" and "n \<le> size_ch ch"
  shows "chan_ok (ch\<lparr> head := (head ch + n) mod size_limit ch, size_ch := size_ch ch - n \<rparr>)"
proof -
  note b = chan_ok_bounds [OF assms(1)]
  have "(head ch + n) mod size_limit ch < max (size_limit ch) 1"
  proof (cases "size_limit ch = 0")
    case True
    then have "n = 0" using assms(2) b(1) by simp
    then show ?thesis using True b(5) by simp
  next
    case False
    then show ?thesis by simp
  qed
  moreover have "size_ch ch - n \<le> size_limit ch" using b(1) by simp
  moreover have "4 * size_limit ch \<le> SIZE_MAX" using assms(1) by (simp add: chan_ok_def)
  ultimately show ?thesis using b(2) by (simp add: chan_ok_def chan_inv_def)
qed

lemma try_recv_v_ok:
  assumes "bus_ok w"
  shows "bus_ok (snd (snd (coro_bus_try_recv_v w c cap)))"
proof (cases "valid_channel w c")
  case False
  then show ?thesis using assms by (simp add: coro_bus_try_recv_v_def valid_channel_def)
next
  case True
  then obtain ch where v: "0 \<le> c" "c < channel_count w" "channels w ! nat c = Some ch"
    "nat c < length (channels w)" by (rule valid_channelD)
  have ok: "chan_ok ch" using assms v(4,3) by (rule bus_ok_nth)
  show ?thesis
  proof (cases "size_ch ch = 0")
    case True
    then show ?thesis using assms v by (simp add: coro_bus_try_recv_v_def)
  next
    case False
    have "chan_ok (ch\<lparr> head := (head ch + min cap (size_ch ch)) mod size_limit ch,
                       size_ch := size_ch ch - min cap (size_ch ch) \<rparr>)"
      using ok by (rule pop_n_ok) simp
    then show ?thesis
      unfolding try_recv_v_success [OF v(1,2,3) ok False]
      using bus_ok_update_Some [OF assms] by (simp add: Let_def)
  qed
qed

lemma try_broadcast_ok:
  assumes "bus_ok w"
  shows "bus_ok (snd (coro_bus_try_broadcast w d))"
proof -
  obtain rc w' where r: "coro_bus_try_broadcast w d = (rc, w')"
    by (cases "coro_bus_try_broadcast w d")
  show ?thesis
  proof (cases "rc = 0")
    case False
    then have "channels w' = channels w" using try_broadcast_failure [OF r] by simp
    then have "bus_ok w' = bus_ok w" by (rule bus_ok_channels_eq)
    then show ?thesis using assms r by simp
  next
    case True
    note s = try_broadcast_success [OF r [unfolded True]]
    note w'_eq = s [THEN conjunct1] and not_full = s [THEN conjunct2, rule_format]
    have "slot_all chan_ok (map_option (broadcast_put d) s')" if "s' \<in> set (channels w)" for s'
    proof (cases s')
      case None
      then show ?thesis by (simp add: slot_all_def)
    next
      case (Some ch)
      have "slot_all chan_ok s'" using assms that by (simp add: bus_ok_def list_all_iff)
      then have ok: "chan_ok ch" using Some by (simp add: slot_all_def)
      have "Some ch \<in> set (channels w)" using that Some by simp
      then have nf: "size_ch ch \<noteq> size_limit ch" by (rule not_full)
      have "chan_ok (broadcast_put d ch)"
        unfolding broadcast_put_ok [OF ok nf] using ok nf by (rule push_ok)
      then show ?thesis using Some by (simp add: slot_all_def)
    qed
    then have "list_all (slot_all chan_ok) (map (map_option (broadcast_put d)) (channels w))"
      by (simp add: list_all_iff)
    then show ?thesis using r by (simp add: bus_ok_def w'_eq)
  qed
qed


lemma run_blocking_preserves:
  assumes "\<And>v. P v \<Longrightarrow> P (outcome_world (iter v))"
    and "\<And>i v. P v \<Longrightarrow> P (resume i v)"
    and "\<forall>e\<in>set envs. \<forall>v. P v \<longrightarrow> P (e v)"
    and "P w" and "run_blocking iter resume envs w = Some (r, w')"
  shows "P w'"
  using assms(3,4,5)
proof (induction envs arbitrary: w)
  case Nil
  then show ?case using assms(1) [of w]
    by (auto simp: outcome_world_def split: outcome.splits)
next
  case (Cons e es)
  note step = assms(1) [OF Cons.prems(2)]
  have rest: "\<forall>e\<in>set es. \<forall>v. P v \<longrightarrow> P (e v)" using Cons.prems(1) by simp
  show ?case
  proof (cases "iter w")
    case (Returned r1 w1)
    then show ?thesis using Cons.prems(3) step by (simp add: outcome_world_def)
  next
    case (Suspended w1 i)
    then have "P w1" using step by (simp add: outcome_world_def)
    then have "P (e w1)" using Cons.prems(1) by simp
    then have "P (resume i (e w1))" by (rule assms(2))
    then show ?thesis using Cons.IH [OF rest] Cons.prems(3) Suspended by simp
  next
    case (Continue w1)
    then have "P w1" using step by (simp add: outcome_world_def)
    then show ?thesis using Cons.IH [OF rest] Cons.prems(3) Continue by simp
  qed
qed

lemma suspend_send_ok:
  assumes "bus_ok w" and "i < length (channels w)" and "channels w ! i = Some ch"
  shows "bus_ok (suspend_on_send_queue self i w)"
  using bus_ok_update_Some [OF assms(1), of "ch\<lparr> send_queue := send_queue ch @ [self] \<rparr>" i]
    bus_ok_nth [OF assms] assms(3)
  by (simp add: suspend_on_send_queue_def wakeup_queue_suspend_this_def)

lemma suspend_recv_ok:
  assumes "bus_ok w" and "i < length (channels w)" and "channels w ! i = Some ch"
  shows "bus_ok (suspend_on_recv_queue self i w)"
  using bus_ok_update_Some [OF assms(1), of "ch\<lparr> recv_queue := recv_queue ch @ [self] \<rparr>" i]
    bus_ok_nth [OF assms] assms(3)
  by (simp add: suspend_on_recv_queue_def wakeup_queue_suspend_this_def)

lemma resume_send_ok: "bus_ok w \<Longrightarrow> bus_ok (resume_on_send_queue self i w)"
proof (cases "i < length (channels w)")
  case False
  assume "bus_ok w"
  then show ?thesis using False by (simp add: resume_on_send_queue_def)
next
  case True
  assume ok: "bus_ok w"
  show ?thesis
  proof (cases "channels w ! i")
    case None
    then show ?thesis using ok by (simp add: resume_on_send_queue_def)
  next
    case (Some ch)
    have "chan_ok (ch\<lparr> send_queue := remove1 self (send_queue ch) \<rparr>)"
      using bus_ok_nth [OF ok True Some] by simp
    then show ?thesis
      using True Some bus_ok_update_Some [OF ok]
      by (simp add: resume_on_send_queue_def wakeup_queue_resume_this_def)
  qed
qed

lemma resume_recv_ok: "bus_ok w \<Longrightarrow> bus_ok (resume_on_recv_queue self i w)"
proof (cases "i < length (channels w)")
  case False
  assume "bus_ok w"
  then show ?thesis using False by (simp add: resume_on_recv_queue_def)
next
  case True
  assume ok: "bus_ok w"
  show ?thesis
  proof (cases "channels w ! i")
    case None
    then show ?thesis using ok by (simp add: resume_on_recv_queue_def)
  next
    case (Some ch)
    have "chan_ok (ch\<lparr> recv_queue := remove1 self (recv_queue ch) \<rparr>)"
      using bus_ok_nth [OF ok True Some] by simp
    then show ?thesis
      using True Some bus_ok_update_Some [OF ok]
      by (simp add: resume_on_recv_queue_def wakeup_queue_resume_this_def)
  qed
qed

lemma wake_next_ok [simp]:
  "bus_ok (wake_next_sender w c) = bus_ok w"
  "bus_ok (wake_next_receiver w c) = bus_ok w"
  by (simp_all add: wake_next_sender_def wake_next_receiver_def split: option.splits)

lemma suspend_send_valid_ok:
  assumes "bus_ok w" and "\<not> (c < 0 \<or> channel_count w \<le> c \<or> channels w ! nat c = None)"
  shows "bus_ok (suspend_on_send_queue self (nat c) w)"
proof -
  obtain ch where "channels w ! nat c = Some ch" using assms(2) by auto
  moreover have "nat c < length (channels w)"
    using assms(2) by (auto simp: channel_count_def nat_less_iff)
  ultimately show ?thesis using assms(1) suspend_send_ok by blast
qed

lemma suspend_recv_valid_ok:
  assumes "bus_ok w" and "\<not> (c < 0 \<or> channel_count w \<le> c \<or> channels w ! nat c = None)"
  shows "bus_ok (suspend_on_recv_queue self (nat c) w)"
proof -
  obtain ch where "channels w ! nat c = Some ch" using assms(2) by auto
  moreover have "nat c < length (channels w)"
    using assms(2) by (auto simp: channel_count_def nat_less_iff)
  ultimately show ?thesis using assms(1) suspend_recv_ok by blast
qed

lemma send_iter_ok:
  assumes "bus_ok w"
  shows "bus_ok (outcome_world (coro_bus_send_iter self c d w))"
proof -
  obtain rc w1 where t: "coro_bus_try_send w c d = (rc, w1)" by (cases "coro_bus_try_send w c d")
  have ok1: "bus_ok w1" using try_send_ok [OF assms, of c d] t by simp
  show ?thesis
    using ok1 suspend_send_valid_ok [OF ok1, of c self]
    by (simp add: coro_bus_send_iter_def t outcome_world_def)
qed

lemma recv_iter_ok:
  assumes "bus_ok w"
  shows "bus_ok (outcome_world (coro_bus_recv_iter self c out w))"
proof -
  obtain rc out1 w1 where t: "coro_bus_try_recv w c out = (rc, out1, w1)"
    by (cases "coro_bus_try_recv w c out")
  have ok1: "bus_ok w1" using try_recv_ok [OF assms, of c out] t by simp
  show ?thesis
    using ok1 suspend_recv_valid_ok [OF ok1, of c self]
    by (simp add: coro_bus_recv_iter_def t outcome_world_def)
qed

lemma send_v_iter_ok:
  assumes "bus_ok w"
  shows "bus_ok (outcome_world (coro_bus_send_v_iter self c ws w))"
proof -
  obtain rc w1 where t: "coro_bus_try_send_v w c ws = (rc, w1)"
    by (cases "coro_bus_try_send_v w c ws")
  have ok1: "bus_ok w1" using try_send_v_ok [OF assms, of c ws] t by simp
  show ?thesis
    using ok1 suspend_send_valid_ok [OF ok1, of c self]
    by (simp add: coro_bus_send_v_iter_def t outcome_world_def)
qed

lemma recv_v_iter_ok:
  assumes "bus_ok w"
  shows "bus_ok (outcome_world (coro_bus_recv_v_iter self c cap w))"
proof -
  obtain rc xs w1 where t: "coro_bus_try_recv_v w c cap = (rc, xs, w1)"
    by (cases "coro_bus_try_recv_v w c cap")
  have ok1: "bus_ok w1" using try_recv_v_ok [OF assms, of c cap] t by simp
  show ?thesis
    using ok1 suspend_recv_valid_ok [OF ok1, of c self]
    by (simp add: coro_bus_recv_v_iter_def t outcome_world_def)
qed

lemma find_full_channel_bound:
  "find_full_channel cs k = Some i \<Longrightarrow> k \<le> i \<and> i - k < length cs"
proof (induction cs arbitrary: k)
  case Nil
  then show ?case by simp
next
  case (Cons c cs)
  show ?case
  proof (cases "find_full_channel cs (Suc k) = Some i")
    case True
    then have "Suc k \<le> i \<and> i - Suc k < length cs" by (rule Cons.IH)
    then show ?thesis by auto
  next
    case False
    then have "i = k" using Cons.prems by (cases c) (auto split: if_splits)
    then show ?thesis by simp
  qed
qed

lemma broadcast_iter_ok:
  assumes "bus_ok w"
  shows "bus_ok (outcome_world (coro_bus_broadcast_iter self d w))"
proof -
  obtain rc w1 where t: "coro_bus_try_broadcast w d = (rc, w1)"
    by (cases "coro_bus_try_broadcast w d")
  have ok1: "bus_ok w1" using try_broadcast_ok [OF assms, of d] t by simp
  have "bus_ok (suspend_on_send_queue self i w1)"
    if "find_full_channel (channels w1) 0 = Some i" and "channels w1 ! i = Some ch" for i ch
  proof -
    have "i < length (channels w1)" using find_full_channel_bound [OF that(1)] by simp
    with ok1 show ?thesis using that(2) by (rule suspend_send_ok)
  qed
  then show ?thesis
    using ok1
    by (simp add: coro_bus_broadcast_iter_def t outcome_world_def split: option.splits)
qed

lemma bus_new_fresh: "fst (coro_bus_new al w) \<Longrightarrow> bus_ok (snd (coro_bus_new al w))"
  by (simp add: coro_bus_new_def bus_ok_def split: if_splits)

lemma ring_contents_length [simp]: "length (ring_contents ch) = size_ch ch"
  by (simp add: ring_contents_def)

lemma ring_contents_nth:
  "k < size_ch ch \<Longrightarrow> ring_contents ch ! k = data ch ! ((head ch + k) mod size_limit ch)"
  by (simp add: ring_contents_def)

lemma run_ops_fifo:
  assumes "bus_ok w" and "0 \<le> c" and "c < channel_count w" and "channels w ! nat c = Some ch"
    and "run_ops c ops w = (s, r, w')"
  shows "\<exists>ch'. channels w' ! nat c = Some ch' \<and> ring_contents ch @ s = r @ ring_contents ch'"
  using assms
proof (induction ops arbitrary: w ch s r w')
  case Nil
  then show ?case by simp
next
  case (Cons op ops)
  have len: "nat c < length (channels w)"
    using Cons.prems(2,3) by (simp add: channel_count_def nat_less_iff)
  have ok: "chan_ok ch" using Cons.prems(1) len Cons.prems(4) by (rule bus_ok_nth)
  show ?case
  proof (cases op)
    case (Op_send d)
    obtain rc w1 where t: "coro_bus_try_send w c d = (rc, w1)"
      by (cases "coro_bus_try_send w c d")
    obtain s1 r1 w2 where run: "run_ops c ops w1 = (s1, r1, w2)"
      by (cases "run_ops c ops w1")
    have res: "s = (if rc = 0 then d # s1 else s1)" "r = r1" "w' = w2"
      using Cons.prems(5) by (simp_all add: Op_send t run)
    have ok1: "bus_ok w1" using try_send_ok [OF Cons.prems(1), of c d] t by simp
    show ?thesis
    proof (cases "size_ch ch = size_limit ch")
      case True
      then have "rc = - 1" and w1: "w1 = w\<lparr> global_error := CORO_BUS_ERR_WOULD_BLOCK \<rparr>"
        using t Cons.prems(2,3,4) by (simp_all add: coro_bus_try_send_def)
      have cnt1: "c < channel_count w1" and slot1: "channels w1 ! nat c = Some ch"
        using Cons.prems(3,4) by (simp_all add: w1 channel_count_def)
      show ?thesis
        using Cons.IH [OF ok1 Cons.prems(2) cnt1 slot1 run] res \<open>rc = - 1\<close> by simp
    next
      case False
      let ?ch1 = "ch\<lparr> data := (data ch)[(head ch + size_ch ch) mod size_limit ch := d],
                       size_ch := size_ch ch + 1 \<rparr>"
      note su = try_send_success [OF Cons.prems(2,3,4) ok False, of d]
      have rc: "rc = 0" using su t by simp
      have cnt1: "c < channel_count w1" and slot1: "channels w1 ! nat c = Some ?ch1"
        using su t Cons.prems(3) len by (auto simp: channel_count_def)
      obtain ch' where "channels w2 ! nat c = Some ch'"
        and "ring_contents ?ch1 @ s1 = r1 @ ring_contents ch'"
        using Cons.IH [OF ok1 Cons.prems(2) cnt1 slot1 run] by blast
      then show ?thesis
        using res rc ring_push [OF ok False, of d] by simp
    qed
  next
    case Op_recv
    obtain rc out w1 where t: "coro_bus_try_recv w c (Some 0) = (rc, out, w1)"
      by (cases "coro_bus_try_recv w c (Some 0)")
    obtain s1 r1 w2 where run: "run_ops c ops w1 = (s1, r1, w2)"
      by (cases "run_ops c ops w1")
    have res: "s = s1" "r = (if rc = 0 then the out # r1 else r1)" "w' = w2"
      using Cons.prems(5) by (simp_all add: Op_recv t run)
    have ok1: "bus_ok w1" using try_recv_ok [OF Cons.prems(1), of c "Some 0"] t by simp
    show ?thesis
    proof (cases "size_ch ch = 0")
      case True
      then have "rc = - 1" and w1: "w1 = w\<lparr> global_error := CORO_BUS_ERR_WOULD_BLOCK \<rparr>"
        using t Cons.prems(2,3,4) by (simp_all add: coro_bus_try_recv_def)
      have cnt1: "c < channel_count w1" and slot1: "channels w1 ! nat c = Some ch"
        using Cons.prems(3,4) by (simp_all add: w1 channel_count_def)
      show ?thesis
        using Cons.IH [OF ok1 Cons.prems(2) cnt1 slot1 run] res \<open>rc = - 1\<close> by simp
    next
      case False
      let ?ch1 = "ch\<lparr> head := (head ch + 1) mod size_limit ch, size_ch := size_ch ch - 1 \<rparr>"
      note su = try_recv_success [OF Cons.prems(2,3,4) ok False, of "Some 0"]
      have rc: "rc = 0" and out: "the out = data ch ! head ch" using su t by simp_all
      have cnt1: "c < channel_count w1" and slot1: "channels w1 ! nat c = Some ?ch1"
        using su t Cons.prems(3) len by (auto simp: channel_count_def)
      obtain ch' where c': "channels w2 ! nat c = Some ch'"
        and eq: "ring_contents ?ch1 @ s1 = r1 @ ring_contents ch'"
        using Cons.IH [OF ok1 Cons.prems(2) cnt1 slot1 run] by blast
      have ne: "ring_contents ch \<noteq> []" using False by (simp add: ring_contents_def)
      have "ring_contents ch = hd (ring_contents ch) # tl (ring_contents ch)"
        using ne by simp
      then have "ring_contents ch = the out # ring_contents ?ch1"
        using ring_pop [OF ok False] out by simp
      then show ?thesis using res rc c' eq by simp
    qed
  qed
qed

lemma find_full_channel_found:
  "broadcast_scan cs n = None \<Longrightarrow>
     \<exists>i ch. find_full_channel cs k = Some (k + i) \<and> i < length cs \<and> cs ! i = Some ch"
proof (induction cs arbitrary: n k)
  case Nil
  then show ?case by simp
next
  case (Cons c cs)
  show ?case
  proof (cases c)
    case None
    then have "broadcast_scan cs n = None" using Cons.prems by simp
    then obtain i ch where "find_full_channel cs (Suc k) = Some (Suc k + i)"
      and "i < length cs" and "cs ! i = Some ch"
      using Cons.IH by blast
    then have "find_full_channel (c # cs) k = Some (k + Suc i) \<and> Suc i < length (c # cs)
        \<and> (c # cs) ! Suc i = Some ch"
      using None by simp
    then show ?thesis by blast
  next
    case (Some ch0)
    show ?thesis
    proof (cases "size_ch ch0 = size_limit ch0")
      case True
      then have "find_full_channel (c # cs) k = Some (k + 0) \<and> 0 < length (c # cs)
          \<and> (c # cs) ! 0 = Some ch0"
        using Some by simp
      then show ?thesis by blast
    next
      case False
      then have "broadcast_scan cs (n + 1) = None" using Cons.prems Some by simp
      then obtain i ch where "find_full_channel cs (Suc k) = Some (Suc k + i)"
        and "i < length cs" and "cs ! i = Some ch"
        using Cons.IH by blast
      then have "find_full_channel (c # cs) k = Some (k + Suc i) \<and> Suc i < length (c # cs)
          \<and> (c # cs) ! Suc i = Some ch"
        using Some False by simp
      then show ?thesis by blast
    qed
  qed
qed

text \<open>The two \<^verbatim>\<open>continue\<close> statements of \<^verbatim>\<open>coro_bus_broadcast\<close> never run: when
  \<^verbatim>\<open>coro_bus_try_broadcast\<close> reports \<^verbatim>\<open>WOULD_BLOCK\<close> the scan for a full channel finds
  one, since nothing runs in between.\<close>

lemma broadcast_iter_never_continues:
  "coro_bus_broadcast_iter self d w \<noteq> Continue w'"
proof (cases "broadcast_scan (channels w) 0")
  case None
  then obtain i ch where f: "find_full_channel (channels w) 0 = Some (0 + i)"
    and "channels w ! i = Some ch"
    using find_full_channel_found by blast
  then show ?thesis
    using None by (simp add: coro_bus_broadcast_iter_def coro_bus_try_broadcast_def)
next
  case (Some existing)
  then show ?thesis
    by (simp add: coro_bus_broadcast_iter_def coro_bus_try_broadcast_def Let_def
        split: prod.splits)
qed

lemma open_descriptor:
  assumes "coro_bus_channel_open al w n = Opened r w'" and "0 \<le> r"
  shows "(nat r < length (channels w) \<and> channels w ! nat r = None
          \<and> (\<forall>j<nat r. channels w ! j \<noteq> None)
          \<and> w' = w\<lparr> channels := (channels w)[nat r := Some (channel_init al n)],
                       global_error := CORO_BUS_ERR_NONE \<rparr>)
       \<or> (None \<notin> set (channels w) \<and> r = channel_count w
          \<and> w' = w\<lparr> channels := channels w @ [Some (channel_init al n)],
                       global_error := CORO_BUS_ERR_NONE \<rparr>)"
proof (cases "find_free_slot (channels w) 0")
  case None
  then have full: "None \<notin> set (channels w)" by (simp add: find_free_slot_None_iff)
  have "r = channel_count w
      \<and> w' = w\<lparr> channels := channels w @ [Some (channel_init al n)],
                   global_error := CORO_BUS_ERR_NONE \<rparr>"
    using assms None by (auto simp: coro_bus_channel_open_def split: if_splits)
  then show ?thesis using full by blast
next
  case (Some i)
  note f = find_free_slot_Some [OF Some]
  have "r = int i
      \<and> w' = w\<lparr> channels := (channels w)[i := Some (channel_init al n)],
                   global_error := CORO_BUS_ERR_NONE \<rparr>"
    using assms Some by (auto simp: coro_bus_channel_open_def split: if_splits)
  then show ?thesis using f by simp
qed

subsection \<open>Channels of capacity 0\<close>

text \<open>
  C9. While a channel opened with capacity 0 is open on the bus, every
  \<^verbatim>\<open>coro_bus_try_broadcast\<close> returns \<open>-1\<close> with \<^verbatim>\<open>WOULD_BLOCK\<close>, and every
  \<^verbatim>\<open>coro_bus_try_send\<close> on that channel returns \<open>-1\<close> with \<^verbatim>\<open>WOULD_BLOCK\<close>: its size
  is 0 by the invariant, so the test \<^verbatim>\<open>size == size_limit\<close> finds it full. Neither call changes
  anything but the error code, so the channel stays in this state.
\<close>

theorem zero_capacity_always_full:
  assumes "bus_inv w" and "i < length (channels w)" and "channels w ! i = Some ch"
    and "size_limit ch = 0"
  shows "coro_bus_try_broadcast w d = (- 1, w\<lparr> global_error := CORO_BUS_ERR_WOULD_BLOCK \<rparr>)
       \<and> coro_bus_try_send w (int i) d = (- 1, w\<lparr> global_error := CORO_BUS_ERR_WOULD_BLOCK \<rparr>)"
proof -
  have "chan_inv ch" using assms bus_inv_nth by blast
  with assms(4) have full: "size_ch ch = size_limit ch" by (simp add: chan_inv_def)
  have "Some ch \<in> set (channels w)" using assms(2,3) by (metis nth_mem)
  then have "broadcast_scan (channels w) 0 = None" using full by (rule broadcast_scan_full)
  then have b: "coro_bus_try_broadcast w d = (- 1, w\<lparr> global_error := CORO_BUS_ERR_WOULD_BLOCK \<rparr>)"
    by (simp add: coro_bus_try_broadcast_def)
  have s: "coro_bus_try_send w (int i) d = (- 1, w\<lparr> global_error := CORO_BUS_ERR_WOULD_BLOCK \<rparr>)"
    using assms(2,3) full by (simp add: coro_bus_try_send_def channel_count_def)
  show ?thesis using b s by simp
qed

theorem zero_capacity_always_full_witness:
  "bus_inv zero_cap_world \<and> 2 < length (channels zero_cap_world)
   \<and> (\<exists>ch. channels zero_cap_world ! 2 = Some ch \<and> size_limit ch = 0)
   \<and> coro_bus_try_broadcast zero_cap_world 5 =
       (- 1, zero_cap_world\<lparr> global_error := CORO_BUS_ERR_WOULD_BLOCK \<rparr>)
   \<and> coro_bus_try_send zero_cap_world (int 2) 5 =
       (- 1, zero_cap_world\<lparr> global_error := CORO_BUS_ERR_WOULD_BLOCK \<rparr>)"
proof -
  have inv: "bus_inv zero_cap_world"
    by (simp add: bus_inv_def zero_cap_world_def slot_all_def chan_inv_def)
  have len: "2 < length (channels zero_cap_world)"
    by (simp add: zero_cap_world_def)
  have slot: "channels zero_cap_world ! 2 =
      Some \<lparr> size_limit = 0, send_queue = [], recv_queue = [], data = [],
             head = 0, size_ch = 0 \<rparr>"
    by (simp add: zero_cap_world_def)
  show ?thesis
    using zero_capacity_always_full [OF inv len slot, of 5] inv len slot by simp
qed

subsection \<open>Receiving without an output cell\<close>

text \<open>
  C10. \<^verbatim>\<open>coro_bus_try_recv\<close> with a \<^verbatim>\<open>NULL\<close> output pointer on an open, non-empty
  channel succeeds: it returns 0, writes no word anywhere, advances \<open>head\<close> by one modulo the
  capacity, decrements \<open>size\<close>, performs a wake-first on the send queue (one call of
  \<^verbatim>\<open>coro_wakeup\<close>, on the coroutine of the first entry, when the queue is not empty; no call
  when it is empty) and sets the error code to \<^verbatim>\<open>NONE\<close>; nothing else changes.
\<close>

theorem try_recv_null_out:
  assumes "bus_ok w" and "0 \<le> c" and "c < channel_count w"
    and "channels w ! nat c = Some ch" and "size_ch ch \<noteq> 0"
  shows "coro_bus_try_recv w c None =
    (0, None,
     w\<lparr> channels := (channels w)[nat c := Some (ch\<lparr>
              head := (head ch + 1) mod size_limit ch,
              size_ch := size_ch ch - 1 \<rparr>)],
        global_error := CORO_BUS_ERR_NONE,
        trace := (if send_queue ch = [] then trace w
                  else trace w @ [Coro_wakeup (hd (send_queue ch))]) \<rparr>)"
proof -
  have "nat c < length (channels w)" using assms(2,3) by (simp add: channel_count_def)
  then have "chan_ok ch" using assms(1,4) bus_ok_nth by blast
  then show ?thesis
    using try_recv_success [OF assms(2,3,4) _ assms(5), of None]
    by (simp add: wakeup_queue_wakeup_first_def)
qed

text \<open>The witness has three senders waiting and an earlier event in the trace: the first
  sender, and only it, is woken, after the earlier event.\<close>

theorem try_recv_null_out_witness:
  "bus_ok waiters_world \<and> (0::int) \<le> 0 \<and> 0 < channel_count waiters_world
   \<and> channels waiters_world ! nat 0 =
       Some \<lparr> size_limit = 2, send_queue = [3, 4, 5], recv_queue = [], data = [11, 22],
              head = 1, size_ch = 2 \<rparr>
   \<and> coro_bus_try_recv waiters_world 0 None =
       (0, None,
        \<lparr> channels =
            [Some \<lparr> size_limit = 2, send_queue = [3, 4, 5], recv_queue = [], data = [11, 22],
                    head = 0, size_ch = 1 \<rparr>],
          global_error = CORO_BUS_ERR_NONE, trace = [Free_bus, Coro_wakeup 3] \<rparr>)"
proof -
  have ok: "bus_ok waiters_world"
    by (simp add: bus_ok_def waiters_world_def slot_all_def chan_ok_def chan_inv_def
        SIZE_MAX_def)
  have z: "(0::int) \<le> 0" by simp
  have cnt: "0 < channel_count waiters_world"
    by (simp add: channel_count_def waiters_world_def)
  have slot: "channels waiters_world ! nat 0 =
      Some \<lparr> size_limit = 2, send_queue = [3, 4, 5], recv_queue = [], data = [11, 22],
             head = 1, size_ch = 2 \<rparr>"
    by (simp add: waiters_world_def)
  have "coro_bus_try_recv waiters_world 0 None =
       (0, None,
        \<lparr> channels =
            [Some \<lparr> size_limit = 2, send_queue = [3, 4, 5], recv_queue = [], data = [11, 22],
                    head = 0, size_ch = 1 \<rparr>],
          global_error = CORO_BUS_ERR_NONE, trace = [Free_bus, Coro_wakeup 3] \<rparr>)"
    using try_recv_null_out [OF ok z cnt slot]
    by (simp add: waiters_world_def)
  then show ?thesis using ok z cnt slot by blast
qed

subsection \<open>Vectorised send\<close>

text \<open>
  C7, as the claim states it, fails: \<^verbatim>\<open>coro_bus_try_send_v\<close> with \<open>count = 0\<close> on an open
  channel that is not full writes nothing, wakes nobody and returns 0, which is not \<open>\<ge> 1\<close>.
\<close>

theorem try_send_v_zero_count_counterexample:
  "channels send_v_world ! nat 0 =
     Some \<lparr> size_limit = 4, send_queue = [], recv_queue = [7, 8, 9], data = [0, 0, 0, 9],
            head = 3, size_ch = 1 \<rparr>
   \<and> (0::int) < channel_count send_v_world
   \<and> coro_bus_try_send_v send_v_world 0 [] =
       (0, send_v_world\<lparr> global_error := CORO_BUS_ERR_NONE \<rparr>)
   \<and> \<not> (1 \<le> fst (coro_bus_try_send_v send_v_world 0 []))"
  by (simp add: send_v_world_def coro_bus_try_send_v_def channel_count_def Let_def
      size_t_sub_def int_of_size_t_def)

text \<open>
  C7, amended. On an open channel that is not full \<^verbatim>\<open>coro_bus_try_send_v\<close> copies the first
  \<open>n = min(count, capacity - size)\<close> words to the tail of the ring, in order, and adds \<open>n\<close>
  to \<open>size\<close>; it sets the error code to \<^verbatim>\<open>NONE\<close>; iff \<open>n > 0\<close> it performs a wake-first
  on the receive queue (one call of \<^verbatim>\<open>coro_wakeup\<close>, on the coroutine of the first entry, when
  the queue is not empty); and it returns \<open>n\<close> converted to \<^verbatim>\<open>int\<close>, which is \<open>n\<close> itself
  when \<open>n < 2 ^ 31\<close>. The count \<open>n\<close> is \<open>\<ge> 1\<close> exactly when \<open>count \<ge> 1\<close>, and 0 when
  \<open>count = 0\<close>.
\<close>

theorem try_send_v_count:
  assumes "bus_ok w" and "0 \<le> c" and "c < channel_count w"
    and "channels w ! nat c = Some ch" and "size_ch ch \<noteq> size_limit ch"
  shows
    "(let n = min (length ws) (size_limit ch - size_ch ch);
          ch' = send_v_loop ch (take n ws)
      in coro_bus_try_send_v w c ws =
           (int_of_size_t n,
            w\<lparr> channels := (channels w)[nat c := Some ch'],
               global_error := CORO_BUS_ERR_NONE,
               trace := (if 0 < n \<and> recv_queue ch \<noteq> []
                         then trace w @ [Coro_wakeup (hd (recv_queue ch))]
                         else trace w) \<rparr>)
         \<and> size_ch ch' = size_ch ch + n
         \<and> ring_contents ch' = ring_contents ch @ take n ws
         \<and> head ch' = head ch \<and> size_limit ch' = size_limit ch
         \<and> send_queue ch' = send_queue ch \<and> recv_queue ch' = recv_queue ch
         \<and> (n < 2 ^ 31 \<longrightarrow> int_of_size_t n = int n)
         \<and> (1 \<le> n \<longleftrightarrow> 1 \<le> length ws))"
proof -
  have "nat c < length (channels w)" using assms(2,3) by (simp add: channel_count_def)
  then have ok: "chan_ok ch" using assms(1,4) bus_ok_nth by blast
  note b = chan_ok_bounds [OF ok]
  let ?n = "min (length ws) (size_limit ch - size_ch ch)"
  have lt: "size_ch ch < size_limit ch" using b(1) assms(5) by simp
  have len: "size_ch ch + length (take ?n ws) \<le> size_limit ch" using b(1) by simp
  have call: "coro_bus_try_send_v w c ws =
      (int_of_size_t ?n,
       w\<lparr> channels := (channels w)[nat c := Some (send_v_loop ch (take ?n ws))],
          global_error := CORO_BUS_ERR_NONE,
          trace := (if 0 < ?n \<and> recv_queue ch \<noteq> []
                    then trace w @ [Coro_wakeup (hd (recv_queue ch))]
                    else trace w) \<rparr>)"
    using try_send_v_success [OF assms(2,3,4) ok assms(5), of ws]
    by (simp add: Let_def wakeup_queue_wakeup_first_def)
  have loop: "size_ch (send_v_loop ch (take ?n ws)) = size_ch ch + ?n
      \<and> ring_contents (send_v_loop ch (take ?n ws)) = ring_contents ch @ take ?n ws
      \<and> head (send_v_loop ch (take ?n ws)) = head ch
      \<and> size_limit (send_v_loop ch (take ?n ws)) = size_limit ch
      \<and> send_queue (send_v_loop ch (take ?n ws)) = send_queue ch
      \<and> recv_queue (send_v_loop ch (take ?n ws)) = recv_queue ch"
    using send_v_loop_spec [OF ok len] by simp
  have cast: "?n < 2 ^ 31 \<longrightarrow> int_of_size_t ?n = int ?n"
    by (simp add: int_of_size_t_small)
  have one: "1 \<le> ?n \<longleftrightarrow> 1 \<le> length ws" using lt by auto
  show ?thesis
    unfolding Let_def using call loop cast one by blast
qed

text \<open>The witness has three receivers waiting: two words are copied across the end of the
  buffer and the first receiver, and only it, is woken.\<close>

theorem try_send_v_count_witness:
  "bus_ok send_v_world \<and> (0::int) \<le> 0 \<and> 0 < channel_count send_v_world
   \<and> channels send_v_world ! nat 0 =
       Some \<lparr> size_limit = 4, send_queue = [], recv_queue = [7, 8, 9], data = [0, 0, 0, 9],
              head = 3, size_ch = 1 \<rparr>
   \<and> coro_bus_try_send_v send_v_world 0 [1, 2] =
       (2, \<lparr> channels =
              [Some \<lparr> size_limit = 4, send_queue = [], recv_queue = [7, 8, 9],
                      data = [1, 2, 0, 9], head = 3, size_ch = 3 \<rparr>],
            global_error = CORO_BUS_ERR_NONE, trace = [Coro_wakeup 7] \<rparr>)"
proof -
  have ok: "bus_ok send_v_world"
    by (simp add: bus_ok_def send_v_world_def slot_all_def chan_ok_def chan_inv_def SIZE_MAX_def)
  have z: "(0::int) \<le> 0" by simp
  have cnt: "0 < channel_count send_v_world"
    by (simp add: channel_count_def send_v_world_def)
  have slot: "channels send_v_world ! nat 0 =
      Some \<lparr> size_limit = 4, send_queue = [], recv_queue = [7, 8, 9], data = [0, 0, 0, 9],
             head = 3, size_ch = 1 \<rparr>"
    by (simp add: send_v_world_def)
  have "coro_bus_try_send_v send_v_world 0 [1, 2] =
       (2, \<lparr> channels =
              [Some \<lparr> size_limit = 4, send_queue = [], recv_queue = [7, 8, 9],
                      data = [1, 2, 0, 9], head = 3, size_ch = 3 \<rparr>],
            global_error = CORO_BUS_ERR_NONE, trace = [Coro_wakeup 7] \<rparr>)"
    using try_send_v_count [OF ok z cnt slot, of "[1, 2]"]
    by (simp add: send_v_world_def size_t_add_def int_of_size_t_def Let_def)
  then show ?thesis using ok z cnt slot by blast
qed

subsection \<open>Error code of the blocking functions\<close>

text \<open>
  C8. Whenever a blocking function (\<^verbatim>\<open>coro_bus_send\<close>, \<^verbatim>\<open>coro_bus_recv\<close>,
  \<^verbatim>\<open>coro_bus_broadcast\<close>, \<^verbatim>\<open>coro_bus_send_v\<close>, \<^verbatim>\<open>coro_bus_recv_v\<close>) returns,
  whatever the other coroutines did while it was suspended, the error code is not
  \<^verbatim>\<open>WOULD_BLOCK\<close>. It returns either after a try that succeeded, with the error code
  \<^verbatim>\<open>NONE\<close>, or with \<open>-1\<close> and \<^verbatim>\<open>NO_CHANNEL\<close>, and then the descriptor is out of range or
  its slot is empty (for broadcast: no channel is open). For the vectorised functions a try
  that succeeded with \<open>2 ^ 31\<close> words or more converts its count to a negative \<^verbatim>\<open>int\<close>, and
  the function then returns \<open>-1\<close> with the error code \<^verbatim>\<open>NONE\<close>.
\<close>

theorem blocking_failure_not_would_block:
  "(coro_bus_send envs self w c d = Some (rc, w') \<longrightarrow>
      global_error w' \<noteq> CORO_BUS_ERR_WOULD_BLOCK
      \<and> ((rc = 0 \<and> global_error w' = CORO_BUS_ERR_NONE)
         \<or> (rc = - 1 \<and> global_error w' = CORO_BUS_ERR_NO_CHANNEL \<and> \<not> valid_channel w' c)))
   \<and> (coro_bus_recv envs self w c out = Some ((rc, out'), w') \<longrightarrow>
      global_error w' \<noteq> CORO_BUS_ERR_WOULD_BLOCK
      \<and> ((rc = 0 \<and> global_error w' = CORO_BUS_ERR_NONE)
         \<or> (rc = - 1 \<and> global_error w' = CORO_BUS_ERR_NO_CHANNEL \<and> \<not> valid_channel w' c)))
   \<and> (coro_bus_broadcast envs self w d = Some (rc, w') \<longrightarrow>
      global_error w' \<noteq> CORO_BUS_ERR_WOULD_BLOCK
      \<and> ((rc = 0 \<and> global_error w' = CORO_BUS_ERR_NONE)
         \<or> (rc = - 1 \<and> global_error w' = CORO_BUS_ERR_NO_CHANNEL
             \<and> list_all (\<lambda>s. s = None) (channels w'))))
   \<and> (coro_bus_send_v envs self w c ws = Some (rc, w') \<longrightarrow>
      global_error w' \<noteq> CORO_BUS_ERR_WOULD_BLOCK
      \<and> ((0 \<le> rc \<and> global_error w' = CORO_BUS_ERR_NONE)
         \<or> (rc = - 1 \<and> global_error w' = CORO_BUS_ERR_NO_CHANNEL \<and> \<not> valid_channel w' c)
         \<or> (rc = - 1 \<and> global_error w' = CORO_BUS_ERR_NONE \<and> 2 ^ 31 \<le> length ws)))
   \<and> (coro_bus_recv_v envs self w c cap = Some ((rc, xs), w') \<longrightarrow>
      global_error w' \<noteq> CORO_BUS_ERR_WOULD_BLOCK
      \<and> ((0 \<le> rc \<and> global_error w' = CORO_BUS_ERR_NONE)
         \<or> (rc = - 1 \<and> global_error w' = CORO_BUS_ERR_NO_CHANNEL \<and> \<not> valid_channel w' c)
         \<or> (rc = - 1 \<and> global_error w' = CORO_BUS_ERR_NONE \<and> 2 ^ 31 \<le> cap)))"
proof -
  have send: "global_error w' \<noteq> CORO_BUS_ERR_WOULD_BLOCK
      \<and> ((rc = 0 \<and> global_error w' = CORO_BUS_ERR_NONE)
         \<or> (rc = - 1 \<and> global_error w' = CORO_BUS_ERR_NO_CHANNEL \<and> \<not> valid_channel w' c))"
    if ret: "coro_bus_send envs self w c d = Some (rc, w')"
  proof -
    have "\<exists>w0. coro_bus_send_iter self c d w0 = Returned rc w'"
      using ret unfolding coro_bus_send_def by (rule run_blocking_returned)
    then obtain w0 where "coro_bus_send_iter self c d w0 = Returned rc w'" ..
    then show ?thesis using send_iter_returned by fastforce
  qed
  have recv: "global_error w' \<noteq> CORO_BUS_ERR_WOULD_BLOCK
      \<and> ((rc = 0 \<and> global_error w' = CORO_BUS_ERR_NONE)
         \<or> (rc = - 1 \<and> global_error w' = CORO_BUS_ERR_NO_CHANNEL \<and> \<not> valid_channel w' c))"
    if ret: "coro_bus_recv envs self w c out = Some ((rc, out'), w')"
  proof -
    have "\<exists>w0. coro_bus_recv_iter self c out w0 = Returned (rc, out') w'"
      using ret unfolding coro_bus_recv_def by (rule run_blocking_returned)
    then obtain w0 where "coro_bus_recv_iter self c out w0 = Returned (rc, out') w'" ..
    then show ?thesis using recv_iter_returned by fastforce
  qed
  have bcast: "global_error w' \<noteq> CORO_BUS_ERR_WOULD_BLOCK
      \<and> ((rc = 0 \<and> global_error w' = CORO_BUS_ERR_NONE)
         \<or> (rc = - 1 \<and> global_error w' = CORO_BUS_ERR_NO_CHANNEL
             \<and> list_all (\<lambda>s. s = None) (channels w')))"
    if ret: "coro_bus_broadcast envs self w d = Some (rc, w')"
  proof -
    have "\<exists>w0. coro_bus_broadcast_iter self d w0 = Returned rc w'"
      using ret unfolding coro_bus_broadcast_def by (rule run_blocking_returned)
    then obtain w0 where "coro_bus_broadcast_iter self d w0 = Returned rc w'" ..
    then show ?thesis using broadcast_iter_returned by fastforce
  qed
  have send_v: "global_error w' \<noteq> CORO_BUS_ERR_WOULD_BLOCK
      \<and> ((0 \<le> rc \<and> global_error w' = CORO_BUS_ERR_NONE)
         \<or> (rc = - 1 \<and> global_error w' = CORO_BUS_ERR_NO_CHANNEL \<and> \<not> valid_channel w' c)
         \<or> (rc = - 1 \<and> global_error w' = CORO_BUS_ERR_NONE \<and> 2 ^ 31 \<le> length ws))"
    if ret: "coro_bus_send_v envs self w c ws = Some (rc, w')"
  proof -
    have "\<exists>w0. coro_bus_send_v_iter self c ws w0 = Returned rc w'"
      using ret unfolding coro_bus_send_v_def by (rule run_blocking_returned)
    then obtain w0 where "coro_bus_send_v_iter self c ws w0 = Returned rc w'" ..
    then show ?thesis using send_v_iter_returned by fastforce
  qed
  have recv_v: "global_error w' \<noteq> CORO_BUS_ERR_WOULD_BLOCK
      \<and> ((0 \<le> rc \<and> global_error w' = CORO_BUS_ERR_NONE)
         \<or> (rc = - 1 \<and> global_error w' = CORO_BUS_ERR_NO_CHANNEL \<and> \<not> valid_channel w' c)
         \<or> (rc = - 1 \<and> global_error w' = CORO_BUS_ERR_NONE \<and> 2 ^ 31 \<le> cap))"
    if ret: "coro_bus_recv_v envs self w c cap = Some ((rc, xs), w')"
  proof -
    have "\<exists>w0. coro_bus_recv_v_iter self c cap w0 = Returned (rc, xs) w'"
      using ret unfolding coro_bus_recv_v_def by (rule run_blocking_returned)
    then obtain w0 where "coro_bus_recv_v_iter self c cap w0 = Returned (rc, xs) w'" ..
    then show ?thesis using recv_v_iter_returned by fastforce
  qed
  show ?thesis using send recv bcast send_v recv_v by blast
qed

text \<open>The witness: each function is called on a channel where it has to wait (a full channel
  for the sending functions, an empty one for the receiving functions); while it is suspended
  another coroutine closes the channel; resumed, it returns \<open>-1\<close> with \<^verbatim>\<open>NO_CHANNEL\<close>.\<close>

theorem blocking_failure_not_would_block_witness:
  "(\<exists>W. coro_bus_send [close_channel_0] 9 full_world 0 6 = Some (- 1, W)
        \<and> global_error W = CORO_BUS_ERR_NO_CHANNEL \<and> \<not> valid_channel W 0)
   \<and> (\<exists>W out. coro_bus_recv [close_channel_0] 9 empty_world 0 (Some 0) = Some ((- 1, out), W)
        \<and> global_error W = CORO_BUS_ERR_NO_CHANNEL \<and> \<not> valid_channel W 0)
   \<and> (\<exists>W. coro_bus_broadcast [close_channel_0] 9 full_world 6 = Some (- 1, W)
        \<and> global_error W = CORO_BUS_ERR_NO_CHANNEL \<and> list_all (\<lambda>s. s = None) (channels W))
   \<and> (\<exists>W. coro_bus_send_v [close_channel_0] 9 full_world 0 [6, 7] = Some (- 1, W)
        \<and> global_error W = CORO_BUS_ERR_NO_CHANNEL \<and> \<not> valid_channel W 0)
   \<and> (\<exists>W xs. coro_bus_recv_v [close_channel_0] 9 empty_world 0 2 = Some ((- 1, xs), W)
        \<and> global_error W = CORO_BUS_ERR_NO_CHANNEL \<and> \<not> valid_channel W 0)"
proof -
  obtain W1 where e1: "coro_bus_send [close_channel_0] 9 full_world 0 6 = Some (- 1, W1)"
    by (simp add: eval_defs)
  obtain W2 out where
    e2: "coro_bus_recv [close_channel_0] 9 empty_world 0 (Some 0) = Some ((- 1, out), W2)"
    by (simp add: eval_defs)
  obtain W3 where e3: "coro_bus_broadcast [close_channel_0] 9 full_world 6 = Some (- 1, W3)"
    by (simp add: eval_defs)
  obtain W4 where
    e4: "coro_bus_send_v [close_channel_0] 9 full_world 0 [6, 7] = Some (- 1, W4)"
    by (simp add: eval_defs)
  obtain W5 xs where
    e5: "coro_bus_recv_v [close_channel_0] 9 empty_world 0 2 = Some ((- 1, xs), W5)"
    by (simp add: eval_defs)
  have len: "\<not> (2 :: nat) ^ 31 \<le> length [6 :: unsigned, 7]" and cap: "\<not> (2 :: nat) ^ 31 \<le> 2"
    by simp_all
  have "global_error W1 = CORO_BUS_ERR_NO_CHANNEL \<and> \<not> valid_channel W1 0"
    using blocking_failure_not_would_block
      [of "[close_channel_0]" 9 full_world 0 6 "- 1" W1] e1 by simp
  moreover have "global_error W2 = CORO_BUS_ERR_NO_CHANNEL \<and> \<not> valid_channel W2 0"
    using blocking_failure_not_would_block
      [of "[close_channel_0]" 9 empty_world 0 _ "- 1" W2 "Some 0" out] e2 by simp
  moreover have "global_error W3 = CORO_BUS_ERR_NO_CHANNEL
      \<and> list_all (\<lambda>s. s = None) (channels W3)"
    using blocking_failure_not_would_block
      [of "[close_channel_0]" 9 full_world _ 6 "- 1" W3] e3 by simp
  moreover have "global_error W4 = CORO_BUS_ERR_NO_CHANNEL \<and> \<not> valid_channel W4 0"
    using blocking_failure_not_would_block
      [of "[close_channel_0]" 9 full_world 0 _ "- 1" W4 _ _ "[6, 7]"] e4 len by auto
  moreover have "global_error W5 = CORO_BUS_ERR_NO_CHANNEL \<and> \<not> valid_channel W5 0"
    using blocking_failure_not_would_block
      [of "[close_channel_0]" 9 empty_world 0 _ "- 1" W5 _ _ _ 2 xs] e5 cap by auto
  ultimately show ?thesis using e1 e2 e3 e4 e5 by blast
qed

subsection \<open>The error code\<close>

text \<open>
  C4, as the claim states it, fails: \<^verbatim>\<open>coro_bus_channel_close\<close> and \<^verbatim>\<open>coro_bus_delete\<close>
  contain no write of \<^verbatim>\<open>global_error\<close>. Closing an open channel, or deleting the bus, while
  the error code is \<^verbatim>\<open>WOULD_BLOCK\<close> leaves it \<^verbatim>\<open>WOULD_BLOCK\<close>, not \<^verbatim>\<open>NONE\<close>.
\<close>

theorem close_keeps_error_code_counterexample:
  "channels recv_world ! nat 0 \<noteq> None \<and> (0::int) < channel_count recv_world
   \<and> global_error recv_world = CORO_BUS_ERR_WOULD_BLOCK
   \<and> channels (coro_bus_channel_close recv_world 0) = [None]
   \<and> global_error (coro_bus_channel_close recv_world 0) = CORO_BUS_ERR_WOULD_BLOCK
   \<and> global_error (coro_bus_channel_close recv_world 0) \<noteq> CORO_BUS_ERR_NONE
   \<and> global_error (coro_bus_delete False recv_world) = CORO_BUS_ERR_WOULD_BLOCK
   \<and> global_error (coro_bus_delete False recv_world) \<noteq> CORO_BUS_ERR_NONE"
  by (simp add: recv_world_def coro_bus_channel_close_def coro_bus_delete_def channel_count_def
      channel_destroy_def Let_def)

text \<open>
  C4, amended. Every operation on a bus or a channel other than \<^verbatim>\<open>coro_bus_channel_close\<close>
  and \<^verbatim>\<open>coro_bus_delete\<close> writes the error code before it returns, \<^verbatim>\<open>NONE\<close> on success
  (the accessor \<^verbatim>\<open>coro_bus_errno_set\<close> writes the code it is given, which
  \<^verbatim>\<open>coro_bus_errno\<close> then reads):
  \<^item> \<^verbatim>\<open>coro_bus_new\<close> sets \<^verbatim>\<open>NONE\<close> when it returns a bus, and changes nothing when
    \<^verbatim>\<open>malloc\<close> fails;
  \<^item> \<^verbatim>\<open>coro_bus_channel_open\<close> sets \<^verbatim>\<open>NONE\<close> when it returns a descriptor, and returns
    \<open>-1\<close> with the state unchanged when \<^verbatim>\<open>realloc\<close> fails;
  \<^item> \<^verbatim>\<open>coro_bus_channel_close\<close> and \<^verbatim>\<open>coro_bus_delete\<close> leave the error code as it was;
  \<^item> \<^verbatim>\<open>coro_bus_try_send\<close>, \<^verbatim>\<open>coro_bus_try_recv\<close> and \<^verbatim>\<open>coro_bus_try_broadcast\<close> return
    0 with \<^verbatim>\<open>NONE\<close>, or \<open>-1\<close> with \<^verbatim>\<open>NO_CHANNEL\<close> or \<^verbatim>\<open>WOULD_BLOCK\<close>;
  \<^item> \<^verbatim>\<open>coro_bus_send\<close>, \<^verbatim>\<open>coro_bus_recv\<close> and \<^verbatim>\<open>coro_bus_broadcast\<close>, when they return,
    return 0 with \<^verbatim>\<open>NONE\<close>, or \<open>-1\<close> with \<^verbatim>\<open>NO_CHANNEL\<close>;
  \<^item> \<^verbatim>\<open>coro_bus_try_send_v\<close> and \<^verbatim>\<open>coro_bus_try_recv_v\<close> either leave \<^verbatim>\<open>NONE\<close>, and
    then the return value is \<open>\<ge> 0\<close> unless the count passed by the caller is \<open>2 ^ 31\<close> or
    more (the count of words moved, converted to \<^verbatim>\<open>int\<close>, can then be negative), or return
    \<open>-1\<close> with \<^verbatim>\<open>NO_CHANNEL\<close> or \<^verbatim>\<open>WOULD_BLOCK\<close>;
  \<^item> \<^verbatim>\<open>coro_bus_send_v\<close> and \<^verbatim>\<open>coro_bus_recv_v\<close>, when they return, either leave
    \<^verbatim>\<open>NONE\<close>, and then the return value is \<open>\<ge> 0\<close> unless the count passed by the caller is
    \<open>2 ^ 31\<close> or more (they then can return \<open>-1\<close> with \<^verbatim>\<open>NONE\<close>), or return \<open>-1\<close> with
    \<^verbatim>\<open>NO_CHANNEL\<close>.
\<close>

theorem error_code_policy:
  "coro_bus_errno (coro_bus_errno_set e w) = e
   \<and> (case coro_bus_new al w of
      (True, w') \<Rightarrow> global_error w' = CORO_BUS_ERR_NONE
    | (False, w') \<Rightarrow> w' = w)
   \<and> (case coro_bus_channel_open al w n of
        Opened r w' \<Rightarrow>
          (0 \<le> r \<and> global_error w' = CORO_BUS_ERR_NONE) \<or> (r = - 1 \<and> w' = w \<and> \<not> malloc_ok al)
      | Bad_alloc \<Rightarrow> True
      | Int_overflow \<Rightarrow> True)
   \<and> global_error (coro_bus_channel_close w c) = global_error w
   \<and> global_error (coro_bus_delete bus_null w) = global_error w
   \<and> (case coro_bus_try_send w c d of (rc, w') \<Rightarrow>
        (rc = 0 \<and> global_error w' = CORO_BUS_ERR_NONE)
        \<or> (rc = - 1 \<and> global_error w' \<in> {CORO_BUS_ERR_NO_CHANNEL, CORO_BUS_ERR_WOULD_BLOCK}))
   \<and> (case coro_bus_try_recv w c out of (rc, out', w') \<Rightarrow>
        (rc = 0 \<and> global_error w' = CORO_BUS_ERR_NONE)
        \<or> (rc = - 1 \<and> global_error w' \<in> {CORO_BUS_ERR_NO_CHANNEL, CORO_BUS_ERR_WOULD_BLOCK}))
   \<and> (case coro_bus_try_broadcast w d of (rc, w') \<Rightarrow>
        (rc = 0 \<and> global_error w' = CORO_BUS_ERR_NONE)
        \<or> (rc = - 1 \<and> global_error w' \<in> {CORO_BUS_ERR_NO_CHANNEL, CORO_BUS_ERR_WOULD_BLOCK}))
   \<and> (case coro_bus_try_send_v w c ws of (rc, w') \<Rightarrow>
        ((0 \<le> rc \<or> 2 ^ 31 \<le> length ws) \<and> global_error w' = CORO_BUS_ERR_NONE)
        \<or> (rc = - 1 \<and> global_error w' \<in> {CORO_BUS_ERR_NO_CHANNEL, CORO_BUS_ERR_WOULD_BLOCK}))
   \<and> (case coro_bus_try_recv_v w c cap of (rc, xs, w') \<Rightarrow>
        ((0 \<le> rc \<or> 2 ^ 31 \<le> cap) \<and> global_error w' = CORO_BUS_ERR_NONE)
        \<or> (rc = - 1 \<and> global_error w' \<in> {CORO_BUS_ERR_NO_CHANNEL, CORO_BUS_ERR_WOULD_BLOCK}))
   \<and> (case coro_bus_send envs self w c d of
        None \<Rightarrow> True
      | Some (rc, w') \<Rightarrow>
          (rc = 0 \<and> global_error w' = CORO_BUS_ERR_NONE)
          \<or> (rc = - 1 \<and> global_error w' = CORO_BUS_ERR_NO_CHANNEL))
   \<and> (case coro_bus_recv envs self w c out of
        None \<Rightarrow> True
      | Some ((rc, out'), w') \<Rightarrow>
          (rc = 0 \<and> global_error w' = CORO_BUS_ERR_NONE)
          \<or> (rc = - 1 \<and> global_error w' = CORO_BUS_ERR_NO_CHANNEL))
   \<and> (case coro_bus_broadcast envs self w d of
        None \<Rightarrow> True
      | Some (rc, w') \<Rightarrow>
          (rc = 0 \<and> global_error w' = CORO_BUS_ERR_NONE)
          \<or> (rc = - 1 \<and> global_error w' = CORO_BUS_ERR_NO_CHANNEL))
   \<and> (case coro_bus_send_v envs self w c ws of
        None \<Rightarrow> True
      | Some (rc, w') \<Rightarrow>
          ((0 \<le> rc \<or> 2 ^ 31 \<le> length ws) \<and> global_error w' = CORO_BUS_ERR_NONE)
          \<or> (rc = - 1 \<and> global_error w' = CORO_BUS_ERR_NO_CHANNEL))
   \<and> (case coro_bus_recv_v envs self w c cap of
        None \<Rightarrow> True
      | Some ((rc, xs), w') \<Rightarrow>
          ((0 \<le> rc \<or> 2 ^ 31 \<le> cap) \<and> global_error w' = CORO_BUS_ERR_NONE)
          \<or> (rc = - 1 \<and> global_error w' = CORO_BUS_ERR_NO_CHANNEL))"
proof -
  have acc: "coro_bus_errno (coro_bus_errno_set e w) = e"
    by (simp add: coro_bus_errno_def coro_bus_errno_set_def)
  have new: "case coro_bus_new al w of
      (True, w') \<Rightarrow> global_error w' = CORO_BUS_ERR_NONE
    | (False, w') \<Rightarrow> w' = w"
    by (simp add: new_cases)
  have opn: "case coro_bus_channel_open al w n of
        Opened r w' \<Rightarrow>
          (0 \<le> r \<and> global_error w' = CORO_BUS_ERR_NONE) \<or> (r = - 1 \<and> w' = w \<and> \<not> malloc_ok al)
      | Bad_alloc \<Rightarrow> True
      | Int_overflow \<Rightarrow> True"
    using open_cases [of al w n] by (auto split: open_result.splits)
  have snd: "case coro_bus_try_send w c d of (rc, w') \<Rightarrow>
        (rc = 0 \<and> global_error w' = CORO_BUS_ERR_NONE)
        \<or> (rc = - 1 \<and> global_error w' \<in> {CORO_BUS_ERR_NO_CHANNEL, CORO_BUS_ERR_WOULD_BLOCK})"
    using try_send_cases [of w c d] by (auto split: prod.splits)
  have rcv: "case coro_bus_try_recv w c out of (rc, out', w') \<Rightarrow>
        (rc = 0 \<and> global_error w' = CORO_BUS_ERR_NONE)
        \<or> (rc = - 1 \<and> global_error w' \<in> {CORO_BUS_ERR_NO_CHANNEL, CORO_BUS_ERR_WOULD_BLOCK})"
    using try_recv_cases [of w c out] by (auto split: prod.splits)
  have bc: "case coro_bus_try_broadcast w d of (rc, w') \<Rightarrow>
        (rc = 0 \<and> global_error w' = CORO_BUS_ERR_NONE)
        \<or> (rc = - 1 \<and> global_error w' \<in> {CORO_BUS_ERR_NO_CHANNEL, CORO_BUS_ERR_WOULD_BLOCK})"
    using try_broadcast_cases [of w d] by (auto split: prod.splits)
  have sndv: "case coro_bus_try_send_v w c ws of (rc, w') \<Rightarrow>
        ((0 \<le> rc \<or> 2 ^ 31 \<le> length ws) \<and> global_error w' = CORO_BUS_ERR_NONE)
        \<or> (rc = - 1 \<and> global_error w' \<in> {CORO_BUS_ERR_NO_CHANNEL, CORO_BUS_ERR_WOULD_BLOCK})"
    using try_send_v_cases [of w c ws] by (auto split: prod.splits)
  have rcvv: "case coro_bus_try_recv_v w c cap of (rc, xs, w') \<Rightarrow>
        ((0 \<le> rc \<or> 2 ^ 31 \<le> cap) \<and> global_error w' = CORO_BUS_ERR_NONE)
        \<or> (rc = - 1 \<and> global_error w' \<in> {CORO_BUS_ERR_NO_CHANNEL, CORO_BUS_ERR_WOULD_BLOCK})"
    using try_recv_v_cases [of w c cap] by (auto split: prod.splits)
  have bsnd: "case coro_bus_send envs self w c d of
        None \<Rightarrow> True
      | Some (rc, w') \<Rightarrow>
          (rc = 0 \<and> global_error w' = CORO_BUS_ERR_NONE)
          \<or> (rc = - 1 \<and> global_error w' = CORO_BUS_ERR_NO_CHANNEL)"
  proof (cases "coro_bus_send envs self w c d")
    case None
    then show ?thesis by simp
  next
    case (Some p)
    obtain rc w' where p: "p = (rc, w')" by (cases p)
    have "\<exists>w0. coro_bus_send_iter self c d w0 = Returned rc w'"
      using Some unfolding coro_bus_send_def p by (rule run_blocking_returned)
    then show ?thesis using send_iter_returned Some p by fastforce
  qed
  have brcv: "case coro_bus_recv envs self w c out of
        None \<Rightarrow> True
      | Some ((rc, out'), w') \<Rightarrow>
          (rc = 0 \<and> global_error w' = CORO_BUS_ERR_NONE)
          \<or> (rc = - 1 \<and> global_error w' = CORO_BUS_ERR_NO_CHANNEL)"
  proof (cases "coro_bus_recv envs self w c out")
    case None
    then show ?thesis by simp
  next
    case (Some p)
    obtain rc out' w' where p: "p = ((rc, out'), w')" by (cases p) auto
    have "\<exists>w0. coro_bus_recv_iter self c out w0 = Returned (rc, out') w'"
      using Some unfolding coro_bus_recv_def p by (rule run_blocking_returned)
    then show ?thesis using recv_iter_returned Some p by fastforce
  qed
  have bbc: "case coro_bus_broadcast envs self w d of
        None \<Rightarrow> True
      | Some (rc, w') \<Rightarrow>
          (rc = 0 \<and> global_error w' = CORO_BUS_ERR_NONE)
          \<or> (rc = - 1 \<and> global_error w' = CORO_BUS_ERR_NO_CHANNEL)"
  proof (cases "coro_bus_broadcast envs self w d")
    case None
    then show ?thesis by simp
  next
    case (Some p)
    obtain rc w' where p: "p = (rc, w')" by (cases p)
    have "\<exists>w0. coro_bus_broadcast_iter self d w0 = Returned rc w'"
      using Some unfolding coro_bus_broadcast_def p by (rule run_blocking_returned)
    then show ?thesis using broadcast_iter_returned Some p by fastforce
  qed
  have bsndv: "case coro_bus_send_v envs self w c ws of
        None \<Rightarrow> True
      | Some (rc, w') \<Rightarrow>
          ((0 \<le> rc \<or> 2 ^ 31 \<le> length ws) \<and> global_error w' = CORO_BUS_ERR_NONE)
          \<or> (rc = - 1 \<and> global_error w' = CORO_BUS_ERR_NO_CHANNEL)"
  proof (cases "coro_bus_send_v envs self w c ws")
    case None
    then show ?thesis by simp
  next
    case (Some p)
    obtain rc w' where p: "p = (rc, w')" by (cases p)
    have "\<exists>w0. coro_bus_send_v_iter self c ws w0 = Returned rc w'"
      using Some unfolding coro_bus_send_v_def p by (rule run_blocking_returned)
    then show ?thesis using send_v_iter_returned Some p by fastforce
  qed
  have brcvv: "case coro_bus_recv_v envs self w c cap of
        None \<Rightarrow> True
      | Some ((rc, xs), w') \<Rightarrow>
          ((0 \<le> rc \<or> 2 ^ 31 \<le> cap) \<and> global_error w' = CORO_BUS_ERR_NONE)
          \<or> (rc = - 1 \<and> global_error w' = CORO_BUS_ERR_NO_CHANNEL)"
  proof (cases "coro_bus_recv_v envs self w c cap")
    case None
    then show ?thesis by simp
  next
    case (Some p)
    obtain rc xs w' where p: "p = ((rc, xs), w')" by (cases p) auto
    have "\<exists>w0. coro_bus_recv_v_iter self c cap w0 = Returned (rc, xs) w'"
      using Some unfolding coro_bus_recv_v_def p by (rule run_blocking_returned)
    then show ?thesis using recv_v_iter_returned Some p by fastforce
  qed
  show ?thesis
    using acc new opn close_global_error [of w c] delete_global_error [of bus_null w]
      snd rcv bc sndv rcvv bsnd brcv bbc bsndv brcvv
    by blast
qed


theorem error_code_policy_witness:
  "coro_bus_new plain_allocator full_world =
     (True, full_world\<lparr> channels := [], global_error := CORO_BUS_ERR_NONE \<rparr>)
   \<and> (\<exists>W. coro_bus_channel_open plain_allocator recv_world 2 = Opened 1 W
          \<and> global_error W = CORO_BUS_ERR_NONE)
   \<and> coro_bus_channel_open (plain_allocator\<lparr> malloc_ok := False \<rparr>) recv_world 2 =
       Opened (- 1) recv_world
   \<and> global_error (coro_bus_channel_close recv_world 0) = CORO_BUS_ERR_WOULD_BLOCK
   \<and> global_error (coro_bus_delete False recv_world) = CORO_BUS_ERR_WOULD_BLOCK
   \<and> (\<exists>W. coro_bus_try_send recv_world 0 6 = (- 1, W)
          \<and> global_error W = CORO_BUS_ERR_WOULD_BLOCK)
   \<and> (\<exists>W. coro_bus_try_send recv_world 1 6 = (- 1, W)
          \<and> global_error W = CORO_BUS_ERR_NO_CHANNEL)
   \<and> (\<exists>W. coro_bus_try_recv recv_world 0 (Some 0) = (0, Some 22, W)
          \<and> global_error W = CORO_BUS_ERR_NONE)
   \<and> (\<exists>W. coro_bus_try_broadcast recv_world 6 = (- 1, W)
          \<and> global_error W = CORO_BUS_ERR_WOULD_BLOCK)
   \<and> (\<exists>W. coro_bus_try_send_v send_v_world 0 [6, 7] = (2, W)
          \<and> global_error W = CORO_BUS_ERR_NONE)
   \<and> (\<exists>W. coro_bus_try_recv_v recv_world 0 5 = (2, [22, 11], W)
          \<and> global_error W = CORO_BUS_ERR_NONE)
   \<and> (\<exists>W. coro_bus_send [close_channel_0] 9 recv_world 0 6 = Some (- 1, W)
          \<and> global_error W = CORO_BUS_ERR_NO_CHANNEL)
   \<and> (\<exists>W. coro_bus_recv [close_channel_0] 9 recv_world 0 (Some 0) = Some ((0, Some 22), W)
          \<and> global_error W = CORO_BUS_ERR_NONE)"
proof -
  have al: "malloc_ok plain_allocator" "\<not> malloc_ok (plain_allocator\<lparr> malloc_ok := False \<rparr>)"
    by (simp_all add: plain_allocator_def)
  note p = error_code_policy [where al = plain_allocator and w = full_world]
  note q = error_code_policy
    [where al = plain_allocator and w = recv_world and n = 2 and c = 0 and bus_null = False
       and d = 6 and out = "Some 0" and ws = "[6, 7]" and cap = 5
       and envs = "[close_channel_0]" and self = 9]
  note r = error_code_policy
    [where al = "plain_allocator\<lparr> malloc_ok := False \<rparr>" and w = recv_world and n = 2
       and c = 1 and bus_null = False and d = 6 and out = "Some 0" and ws = "[6, 7]"
       and cap = 5 and envs = "[close_channel_0]" and self = 9]
  note s = error_code_policy
    [where al = plain_allocator and w = send_v_world and n = 2 and c = 0 and bus_null = False
       and d = 6 and out = "Some 0" and ws = "[6, 7]" and cap = 5
       and envs = "[close_channel_0]" and self = 9]
  have 1: "coro_bus_new plain_allocator full_world =
     (True, full_world\<lparr> channels := [], global_error := CORO_BUS_ERR_NONE \<rparr>)"
    using p al by (simp add: coro_bus_new_def)
  have 2: "\<exists>W. coro_bus_channel_open plain_allocator recv_world 2 = Opened 1 W
          \<and> global_error W = CORO_BUS_ERR_NONE"
    using q by (simp add: coro_bus_channel_open_def recv_world_def plain_allocator_def
        new_throws_def SIZE_MAX_def INT_MAX_def channel_count_def)
  have 3: "coro_bus_channel_open (plain_allocator\<lparr> malloc_ok := False \<rparr>) recv_world 2 =
       Opened (- 1) recv_world"
    using r by (simp add: coro_bus_channel_open_def recv_world_def plain_allocator_def
        new_throws_def SIZE_MAX_def INT_MAX_def channel_count_def)
  have 4: "global_error (coro_bus_channel_close recv_world 0) = CORO_BUS_ERR_WOULD_BLOCK"
    "global_error (coro_bus_delete False recv_world) = CORO_BUS_ERR_WOULD_BLOCK"
    using q by (simp_all add: recv_world_def)
  have 5: "\<exists>W. coro_bus_try_send recv_world 0 6 = (- 1, W)
          \<and> global_error W = CORO_BUS_ERR_WOULD_BLOCK"
    using q by (simp add: recv_world_def eval_defs)
  have 6: "\<exists>W. coro_bus_try_send recv_world 1 6 = (- 1, W)
          \<and> global_error W = CORO_BUS_ERR_NO_CHANNEL"
    using r by (simp add: recv_world_def eval_defs)
  have 7: "\<exists>W. coro_bus_try_recv recv_world 0 (Some 0) = (0, Some 22, W)
          \<and> global_error W = CORO_BUS_ERR_NONE"
    using q by (simp add: recv_world_def eval_defs)
  have 8: "\<exists>W. coro_bus_try_broadcast recv_world 6 = (- 1, W)
          \<and> global_error W = CORO_BUS_ERR_WOULD_BLOCK"
    using q by (simp add: recv_world_def eval_defs)
  have 9: "\<exists>W. coro_bus_try_send_v send_v_world 0 [6, 7] = (2, W)
          \<and> global_error W = CORO_BUS_ERR_NONE"
    using s by (simp add: send_v_world_def eval_defs)
  have 10: "\<exists>W. coro_bus_try_recv_v recv_world 0 5 = (2, [22, 11], W)
          \<and> global_error W = CORO_BUS_ERR_NONE"
    using q by (simp add: recv_world_def eval_defs recv_v_loop_numeral)
  have 11: "\<exists>W. coro_bus_send [close_channel_0] 9 recv_world 0 6 = Some (- 1, W)
          \<and> global_error W = CORO_BUS_ERR_NO_CHANNEL"
    using q by (simp add: recv_world_def eval_defs)
  have 12: "\<exists>W. coro_bus_recv [close_channel_0] 9 recv_world 0 (Some 0) = Some ((0, Some 22), W)
          \<and> global_error W = CORO_BUS_ERR_NONE"
    using q by (simp add: recv_world_def eval_defs)
  show ?thesis using 1 2 3 4 5 6 7 8 9 10 11 12 by blast
qed

subsection \<open>The order of the steps of close\<close>

text \<open>
  C2, as the claim states it, fails: \<^verbatim>\<open>coro_bus_channel_close\<close> does not detach the slot first.
  On a channel with two waiting senders the two calls of \<^verbatim>\<open>coro_wakeup\<close> come before the slot is
  cleared.
\<close>

theorem close_wakes_before_detach_counterexample:
  "channels recv_world ! nat 0 \<noteq> None \<and> (0::int) < channel_count recv_world
   \<and> trace recv_world = []
   \<and> trace (coro_bus_channel_close recv_world 0) ! 0 = Coro_wakeup 3
   \<and> trace (coro_bus_channel_close recv_world 0) ! 1 = Coro_wakeup 4
   \<and> trace (coro_bus_channel_close recv_world 0) ! 2 = Slot_cleared 0
   \<and> trace (coro_bus_channel_close recv_world 0) ! 0 \<noteq> Slot_cleared 0"
  by (simp add: recv_world_def coro_bus_channel_close_def channel_count_def Let_def)

text \<open>
  C2, amended. \<^verbatim>\<open>coro_bus_channel_close\<close> on a valid, open descriptor performs its steps in
  this order: it wakes and detaches every waiter of the send queue, then every waiter of the
  receive queue, each queue in its own order; then it clears the slot; then it releases the
  buffer and then the channel object. Both wait queues of the channel object are empty when its
  buffer and the object itself are released. Nothing else changes, and afterwards the
  descriptor is not valid.
\<close>

theorem channel_close_order:
  assumes "0 \<le> c" and "c < channel_count w" and "channels w ! nat c = Some ch"
  shows "coro_bus_channel_close w c =
      w\<lparr> channels := (channels w)[nat c := None],
         trace := trace w @ map Coro_wakeup (send_queue ch) @ map Coro_wakeup (recv_queue ch)
                  @ [Slot_cleared (nat c),
                     Delete_data (ch\<lparr> send_queue := [], recv_queue := [] \<rparr>),
                     Delete_channel
                       (channel_destroy (ch\<lparr> send_queue := [], recv_queue := [] \<rparr>))] \<rparr>
    \<and> \<not> valid_channel (coro_bus_channel_close w c) c"
proof -
  have eq: "coro_bus_channel_close w c =
      w\<lparr> channels := (channels w)[nat c := None],
         trace := trace w @ map Coro_wakeup (send_queue ch) @ map Coro_wakeup (recv_queue ch)
                  @ [Slot_cleared (nat c),
                     Delete_data (ch\<lparr> send_queue := [], recv_queue := [] \<rparr>),
                     Delete_channel
                       (channel_destroy (ch\<lparr> send_queue := [], recv_queue := [] \<rparr>))] \<rparr>"
    using assms by (simp add: coro_bus_channel_close_def wakeup_all_spec Let_def)
  have "nat c < length (channels w)" using assms(1,2) by (simp add: channel_count_def)
  then have "\<not> valid_channel (coro_bus_channel_close w c) c"
    unfolding eq by (simp add: valid_channel_def channel_count_def)
  then show ?thesis using eq by simp
qed

theorem channel_close_order_witness:
  "(0::int) \<le> 0 \<and> 0 < channel_count recv_world
   \<and> channels recv_world ! nat 0 =
       Some \<lparr> size_limit = 2, send_queue = [3, 4], recv_queue = [], data = [11, 22],
              head = 1, size_ch = 2 \<rparr>
   \<and> coro_bus_channel_close recv_world 0 =
       \<lparr> channels = [None], global_error = CORO_BUS_ERR_WOULD_BLOCK,
         trace =
           [Coro_wakeup 3, Coro_wakeup 4, Slot_cleared 0,
            Delete_data \<lparr> size_limit = 2, send_queue = [], recv_queue = [], data = [11, 22],
                          head = 1, size_ch = 2 \<rparr>,
            Delete_channel \<lparr> size_limit = 0, send_queue = [], recv_queue = [], data = [],
                             head = 0, size_ch = 0 \<rparr>] \<rparr>
   \<and> \<not> valid_channel (coro_bus_channel_close recv_world 0) 0"
proof -
  have cnt: "0 < channel_count recv_world"
    by (simp add: channel_count_def recv_world_def)
  have slot: "channels recv_world ! nat 0 =
      Some \<lparr> size_limit = 2, send_queue = [3, 4], recv_queue = [], data = [11, 22],
             head = 1, size_ch = 2 \<rparr>"
    by (simp add: recv_world_def)
  note close = channel_close_order [OF _ cnt slot]
  have z: "(0::int) \<le> 0" by simp
  have nv: "\<not> valid_channel (coro_bus_channel_close recv_world 0) 0"
    using close by blast
  have ev: "coro_bus_channel_close recv_world 0 =
       \<lparr> channels = [None], global_error = CORO_BUS_ERR_WOULD_BLOCK,
         trace =
           [Coro_wakeup 3, Coro_wakeup 4, Slot_cleared 0,
            Delete_data \<lparr> size_limit = 2, send_queue = [], recv_queue = [], data = [11, 22],
                          head = 1, size_ch = 2 \<rparr>,
            Delete_channel \<lparr> size_limit = 0, send_queue = [], recv_queue = [], data = [],
                             head = 0, size_ch = 0 \<rparr>] \<rparr>"
    using close by (simp add: recv_world_def channel_destroy_def)
  show ?thesis using z cnt slot ev nv by blast
qed

subsection \<open>Descriptor allocation\<close>

text \<open>
  C6. Every descriptor that \<^verbatim>\<open>coro_bus_channel_open\<close> returns is the lowest-index empty slot,
  with the new channel put there and the length of the slot array as it was, or, when no slot is
  empty, the index of the one slot appended to the array. When \<^verbatim>\<open>operator new\<close> does not
  throw, the call does return the lowest-index empty slot if there is one, and appends a slot if
  there is none, \<^verbatim>\<open>realloc\<close> succeeds and the count fits \<^verbatim>\<open>int\<close>. Opening \<open>N\<close> channels
  on a fresh bus returns \<open>0, \<dots>, N - 1\<close>. After a successful open, closing the descriptor and
  opening again returns the same descriptor.
\<close>

theorem channel_open_lowest_free:
  "(\<forall>r w'. coro_bus_channel_open al w n = Opened r w' \<and> 0 \<le> r \<longrightarrow>
      (nat r < length (channels w) \<and> channels w ! nat r = None
         \<and> (\<forall>j<nat r. channels w ! j \<noteq> None)
         \<and> w' = w\<lparr> channels := (channels w)[nat r := Some (channel_init al n)],
                      global_error := CORO_BUS_ERR_NONE \<rparr>)
      \<or> (None \<notin> set (channels w) \<and> r = channel_count w
         \<and> w' = w\<lparr> channels := channels w @ [Some (channel_init al n)],
                      global_error := CORO_BUS_ERR_NONE \<rparr>))
   \<and> (\<forall>i. \<not> new_throws al n \<and> i < length (channels w) \<and> channels w ! i = None
          \<and> (\<forall>j<i. channels w ! j \<noteq> None)
        \<longrightarrow> coro_bus_channel_open al w n =
              Opened (int i) (w\<lparr> channels := (channels w)[i := Some (channel_init al n)],
                                 global_error := CORO_BUS_ERR_NONE \<rparr>))
   \<and> (\<not> new_throws al n \<and> None \<notin> set (channels w) \<and> malloc_ok al
          \<and> channel_count w < INT_MAX
        \<longrightarrow> coro_bus_channel_open al w n =
              Opened (channel_count w)
                (w\<lparr> channels := channels w @ [Some (channel_init al n)],
                    global_error := CORO_BUS_ERR_NONE \<rparr>))
   \<and> (channels w = [] \<and> malloc_ok al \<and> (\<forall>m\<in>set ns. \<not> new_throws al m)
          \<and> int (length ns) \<le> INT_MAX
        \<longrightarrow> (\<exists>w'. open_many al ns w = Some (map int [0..<length ns], w')))
   \<and> (\<forall>r w1. \<not> new_throws al n \<and> coro_bus_channel_open al w n = Opened r w1 \<and> 0 \<le> r
        \<longrightarrow> (\<exists>w3. coro_bus_channel_open al (coro_bus_channel_close w1 r) n = Opened r w3))"
proof -
  have e: "\<forall>r w'. coro_bus_channel_open al w n = Opened r w' \<and> 0 \<le> r \<longrightarrow>
      (nat r < length (channels w) \<and> channels w ! nat r = None
         \<and> (\<forall>j<nat r. channels w ! j \<noteq> None)
         \<and> w' = w\<lparr> channels := (channels w)[nat r := Some (channel_init al n)],
                      global_error := CORO_BUS_ERR_NONE \<rparr>)
      \<or> (None \<notin> set (channels w) \<and> r = channel_count w
         \<and> w' = w\<lparr> channels := channels w @ [Some (channel_init al n)],
                      global_error := CORO_BUS_ERR_NONE \<rparr>)"
    using open_descriptor [of al w n] by blast
  have a: "\<forall>i. \<not> new_throws al n \<and> i < length (channels w) \<and> channels w ! i = None
          \<and> (\<forall>j<i. channels w ! j \<noteq> None)
        \<longrightarrow> coro_bus_channel_open al w n =
              Opened (int i) (w\<lparr> channels := (channels w)[i := Some (channel_init al n)],
                                 global_error := CORO_BUS_ERR_NONE \<rparr>)"
    using open_reuses [of _ w al n] by blast
  have b: "\<not> new_throws al n \<and> None \<notin> set (channels w) \<and> malloc_ok al
          \<and> channel_count w < INT_MAX
        \<longrightarrow> coro_bus_channel_open al w n =
              Opened (channel_count w)
                (w\<lparr> channels := channels w @ [Some (channel_init al n)],
                    global_error := CORO_BUS_ERR_NONE \<rparr>)"
    using open_grows [of w al n] by blast
  have c: "channels w = [] \<and> malloc_ok al \<and> (\<forall>m\<in>set ns. \<not> new_throws al m)
          \<and> int (length ns) \<le> INT_MAX
        \<longrightarrow> (\<exists>w'. open_many al ns w = Some (map int [0..<length ns], w'))"
  proof
    assume h: "channels w = [] \<and> malloc_ok al \<and> (\<forall>m\<in>set ns. \<not> new_throws al m)
          \<and> int (length ns) \<le> INT_MAX"
    then have "None \<notin> set (channels w)"
      and "int (length (channels w) + length ns) \<le> INT_MAX" by simp_all
    then show "\<exists>w'. open_many al ns w = Some (map int [0..<length ns], w')"
      using open_many_grows [of w al ns] h by simp
  qed
  have d: "\<forall>r w1. \<not> new_throws al n \<and> coro_bus_channel_open al w n = Opened r w1 \<and> 0 \<le> r
        \<longrightarrow> (\<exists>w3. coro_bus_channel_open al (coro_bus_channel_close w1 r) n = Opened r w3)"
    using open_after_close [of al w n _ _ al n] by blast
  show ?thesis using e a b c d by blast
qed

theorem channel_open_lowest_free_witness:
  "\<not> new_throws plain_allocator 2
   \<and> (\<exists>W. coro_bus_channel_open plain_allocator zero_cap_world 2 = Opened 1 W
          \<and> length (channels W) = 3)
   \<and> (\<exists>W. coro_bus_channel_open plain_allocator full_world 2 = Opened 1 W
          \<and> length (channels W) = 2)
   \<and> (\<exists>W. open_many plain_allocator [2, 0, 1] fresh_world = Some ([0, 1, 2], W))
   \<and> (\<exists>W1 W3. coro_bus_channel_open plain_allocator zero_cap_world 2 = Opened 1 W1
          \<and> coro_bus_channel_open plain_allocator (coro_bus_channel_close W1 1) 2 = Opened 1 W3)"
proof -
  have nt: "\<not> new_throws plain_allocator 2"
    "\<forall>m\<in>set [2, 0, 1]. \<not> new_throws plain_allocator m"
    by (simp_all add: new_throws_def plain_allocator_def SIZE_MAX_def)
  have mo: "malloc_ok plain_allocator" by (simp add: plain_allocator_def)
  note z = channel_open_lowest_free [where al = plain_allocator and n = 2 and w = zero_cap_world]
  note f = channel_open_lowest_free [where al = plain_allocator and n = 2 and w = full_world]
  note e = channel_open_lowest_free
    [where al = plain_allocator and n = 2 and w = fresh_world and ns = "[2, 0, 1]"]
  have slot: "\<not> new_throws plain_allocator 2 \<and> 1 < length (channels zero_cap_world)
      \<and> channels zero_cap_world ! 1 = None \<and> (\<forall>j<1. channels zero_cap_world ! j \<noteq> None)"
    using nt(1) by (simp add: zero_cap_world_def)
  have 1: "coro_bus_channel_open plain_allocator zero_cap_world 2 =
      Opened 1 (zero_cap_world\<lparr> channels := (channels zero_cap_world)
                                   [1 := Some (channel_init plain_allocator 2)],
                                 global_error := CORO_BUS_ERR_NONE \<rparr>)"
    using z [THEN conjunct2, THEN conjunct1, rule_format, OF slot] by simp
  have full: "\<not> new_throws plain_allocator 2 \<and> None \<notin> set (channels full_world)
      \<and> malloc_ok plain_allocator \<and> channel_count full_world < INT_MAX"
    using mo nt(1) by (simp add: full_world_def channel_count_def INT_MAX_def)
  have 2: "coro_bus_channel_open plain_allocator full_world 2 =
      Opened 1 (full_world\<lparr> channels := channels full_world
                                   @ [Some (channel_init plain_allocator 2)],
                             global_error := CORO_BUS_ERR_NONE \<rparr>)"
    using f [THEN conjunct2, THEN conjunct2, THEN conjunct1, rule_format, OF full]
    by (simp add: channel_count_def full_world_def)
  have fresh: "channels fresh_world = [] \<and> malloc_ok plain_allocator
      \<and> (\<forall>m\<in>set [2, 0, 1]. \<not> new_throws plain_allocator m)
      \<and> int (length [2 :: nat, 0, 1]) \<le> INT_MAX"
    using mo nt(2) by (simp add: fresh_world_def INT_MAX_def)
  have "\<exists>W. open_many plain_allocator [2, 0, 1] fresh_world
      = Some (map int [0..<length [2 :: nat, 0, 1]], W)"
    using e [THEN conjunct2, THEN conjunct2, THEN conjunct2, THEN conjunct1, rule_format,
        OF fresh] .
  then have 3: "\<exists>W. open_many plain_allocator [2, 0, 1] fresh_world = Some ([0, 1, 2], W)"
    by (simp add: upt_rec)
  have again: "\<not> new_throws plain_allocator 2
      \<and> coro_bus_channel_open plain_allocator zero_cap_world 2 =
          Opened 1 (zero_cap_world\<lparr> channels := (channels zero_cap_world)
                                   [1 := Some (channel_init plain_allocator 2)],
                                 global_error := CORO_BUS_ERR_NONE \<rparr>)
      \<and> (0::int) \<le> 1"
    using nt(1) 1 by simp
  have 4: "\<exists>W1 W3. coro_bus_channel_open plain_allocator zero_cap_world 2 = Opened 1 W1
      \<and> coro_bus_channel_open plain_allocator (coro_bus_channel_close W1 1) 2 = Opened 1 W3"
    using z [THEN conjunct2, THEN conjunct2, THEN conjunct2, THEN conjunct2, rule_format,
        OF again] 1 by blast
  have l1: "length (channels (zero_cap_world\<lparr> channels := (channels zero_cap_world)
                                   [1 := Some (channel_init plain_allocator 2)],
                                 global_error := CORO_BUS_ERR_NONE \<rparr>)) = 3"
    by (simp add: zero_cap_world_def)
  have l2: "length (channels (full_world\<lparr> channels := channels full_world
                                   @ [Some (channel_init plain_allocator 2)],
                             global_error := CORO_BUS_ERR_NONE \<rparr>)) = 2"
    by (simp add: full_world_def)
  show ?thesis using nt(1) 1 2 3 4 l1 l2 by blast
qed

subsection \<open>Broadcast is all or nothing\<close>

text \<open>
  C1. In every well-formed bus state, if \<^verbatim>\<open>coro_bus_try_broadcast\<close> returns success then every
  empty slot stays empty, and every open channel has its \<open>size\<close> increased by exactly 1 with
  the word stored at the position \<open>(head + old size) mod capacity\<close>, the logical tail of its
  ring, and nothing else of it changed; the receive queue of each open channel received a
  wake-first: the trace is extended, in slot order, by one call of \<^verbatim>\<open>coro_wakeup\<close> for each
  open channel whose receive queue is not empty, on the coroutine of the first entry of that
  queue, and by nothing else; the error code is \<^verbatim>\<open>NONE\<close>. If it returns failure (\<open>-1\<close>), no
  slot and no channel has changed: not its size, its head or its buffer.
\<close>

theorem try_broadcast_atomic:
  assumes "bus_ok w" and "coro_bus_try_broadcast w d = (rc, w')"
  shows
    "(rc = 0 \<longrightarrow>
        global_error w' = CORO_BUS_ERR_NONE
        \<and> length (channels w') = length (channels w)
        \<and> (\<forall>i<length (channels w).
              (channels w ! i = None \<longrightarrow> channels w' ! i = None)
              \<and> (\<forall>ch. channels w ! i = Some ch \<longrightarrow>
                    (\<exists>ch'. channels w' ! i = Some ch'
                       \<and> size_ch ch' = size_ch ch + 1
                       \<and> data ch' ! ((head ch + size_ch ch) mod size_limit ch) = d
                       \<and> ring_contents ch' = ring_contents ch @ [d]
                       \<and> head ch' = head ch \<and> size_limit ch' = size_limit ch
                       \<and> send_queue ch' = send_queue ch \<and> recv_queue ch' = recv_queue ch)))
        \<and> trace w' =
            trace w @ concat (map (\<lambda>s. case s of
                                      None \<Rightarrow> []
                                    | Some ch \<Rightarrow>
                                        if recv_queue ch = [] then []
                                        else [Coro_wakeup (hd (recv_queue ch))])
                                (channels w)))
     \<and> (rc \<noteq> 0 \<longrightarrow> rc = - 1 \<and> channels w' = channels w \<and> trace w' = trace w)"
proof (cases "rc = 0")
  case False
  then show ?thesis using try_broadcast_failure [OF assms(2)] by simp
next
  case True
  note s = try_broadcast_success [OF assms(2) [unfolded True]]
  have chans: "channels w' = map (map_option (broadcast_put d)) (channels w)"
    and tr0: "trace w' = trace w @ concat (map wake_first_events (channels w))"
    and err: "global_error w' = CORO_BUS_ERR_NONE"
    using s by simp_all
  have "wake_first_events = (\<lambda>s. case s of
                                      None \<Rightarrow> []
                                    | Some ch \<Rightarrow>
                                        if recv_queue ch = [] then []
                                        else [Coro_wakeup (hd (recv_queue ch))])"
    by (rule ext) (simp add: wake_first_events_def)
  then have tr: "trace w' =
            trace w @ concat (map (\<lambda>s. case s of
                                      None \<Rightarrow> []
                                    | Some ch \<Rightarrow>
                                        if recv_queue ch = [] then []
                                        else [Coro_wakeup (hd (recv_queue ch))])
                                (channels w))"
    using tr0 by simp
  have slot: "(channels w ! i = None \<longrightarrow> channels w' ! i = None)
      \<and> (\<forall>ch. channels w ! i = Some ch \<longrightarrow>
            (\<exists>ch'. channels w' ! i = Some ch'
               \<and> size_ch ch' = size_ch ch + 1
               \<and> data ch' ! ((head ch + size_ch ch) mod size_limit ch) = d
               \<and> ring_contents ch' = ring_contents ch @ [d]
               \<and> head ch' = head ch \<and> size_limit ch' = size_limit ch
               \<and> send_queue ch' = send_queue ch \<and> recv_queue ch' = recv_queue ch))"
    if i: "i < length (channels w)" for i
  proof (intro conjI allI impI)
    assume "channels w ! i = None"
    then show "channels w' ! i = None" using i chans by simp
  next
    fix ch assume ch: "channels w ! i = Some ch"
    have ok: "chan_ok ch" using assms(1) i ch by (rule bus_ok_nth)
    have "Some ch \<in> set (channels w)" using i ch by (metis nth_mem)
    then have nf: "size_ch ch \<noteq> size_limit ch" using s by blast
    let ?p = "(head ch + size_ch ch) mod size_limit ch"
    let ?ch' = "ch\<lparr> data := (data ch)[?p := d], size_ch := size_ch ch + 1 \<rparr>"
    note b = chan_ok_bounds [OF ok]
    have "?p < length (data ch)" using b(1,2) nf by simp
    then have at: "data ?ch' ! ?p = d" by simp
    have "channels w' ! i = Some ?ch'"
      using i ch chans broadcast_put_ok [OF ok nf] by simp
    then show "\<exists>ch'. channels w' ! i = Some ch'
               \<and> size_ch ch' = size_ch ch + 1
               \<and> data ch' ! ((head ch + size_ch ch) mod size_limit ch) = d
               \<and> ring_contents ch' = ring_contents ch @ [d]
               \<and> head ch' = head ch \<and> size_limit ch' = size_limit ch
               \<and> send_queue ch' = send_queue ch \<and> recv_queue ch' = recv_queue ch"
      using at ring_push [OF ok nf, of d] by simp
  qed
  show ?thesis using True err chans tr slot by simp
qed

text \<open>The witness: a bus with three open channels and one empty slot. The first channel has
  three receivers waiting, the channel of slot 2 has none and is filled by the broadcast, the
  channel of slot 3 has four receivers and a sender waiting. The broadcast wakes the first
  receiver of slot 0 and then the first receiver of slot 3, and nobody else. On the bus with a
  full channel it fails and changes no channel.\<close>

theorem try_broadcast_atomic_witness:
  "bus_ok bcast_world
   \<and> coro_bus_try_broadcast bcast_world 9 =
       (0, \<lparr> channels =
               [Some \<lparr> size_limit = 2, send_queue = [], recv_queue = [7, 8, 9], data = [0, 9],
                       head = 1, size_ch = 1 \<rparr>,
                None,
                Some \<lparr> size_limit = 3, send_queue = [], recv_queue = [], data = [1, 9, 3],
                       head = 2, size_ch = 3 \<rparr>,
                Some \<lparr> size_limit = 1, send_queue = [6], recv_queue = [4, 5, 6, 7], data = [9],
                       head = 0, size_ch = 1 \<rparr>],
             global_error = CORO_BUS_ERR_NONE, trace = [Coro_wakeup 7, Coro_wakeup 4] \<rparr>)
   \<and> trace (snd (coro_bus_try_broadcast bcast_world 9)) = [Coro_wakeup 7, Coro_wakeup 4]
   \<and> bus_ok recv_world
   \<and> coro_bus_try_broadcast recv_world 9 =
       (- 1, recv_world\<lparr> global_error := CORO_BUS_ERR_WOULD_BLOCK \<rparr>)
   \<and> channels (snd (coro_bus_try_broadcast recv_world 9)) = channels recv_world"
proof -
  have ok1: "bus_ok bcast_world"
    by (simp add: bus_ok_def bcast_world_def slot_all_def chan_ok_def chan_inv_def SIZE_MAX_def)
  have ok2: "bus_ok recv_world"
    by (simp add: bus_ok_def recv_world_def slot_all_def chan_ok_def chan_inv_def SIZE_MAX_def)
  have e1: "coro_bus_try_broadcast bcast_world 9 =
       (0, \<lparr> channels =
               [Some \<lparr> size_limit = 2, send_queue = [], recv_queue = [7, 8, 9], data = [0, 9],
                       head = 1, size_ch = 1 \<rparr>,
                None,
                Some \<lparr> size_limit = 3, send_queue = [], recv_queue = [], data = [1, 9, 3],
                       head = 2, size_ch = 3 \<rparr>,
                Some \<lparr> size_limit = 1, send_queue = [6], recv_queue = [4, 5, 6, 7], data = [9],
                       head = 0, size_ch = 1 \<rparr>],
             global_error = CORO_BUS_ERR_NONE, trace = [Coro_wakeup 7, Coro_wakeup 4] \<rparr>)"
    by (simp add: bcast_world_def coro_bus_try_broadcast_def broadcast_put_def
        wakeup_queue_wakeup_first_def size_t_add_def Let_def)
  have e2: "coro_bus_try_broadcast recv_world 9 =
       (- 1, recv_world\<lparr> global_error := CORO_BUS_ERR_WOULD_BLOCK \<rparr>)"
    by (simp add: recv_world_def coro_bus_try_broadcast_def)
  obtain rc1 W1 where r1: "coro_bus_try_broadcast bcast_world 9 = (rc1, W1)" and rc1: "rc1 = 0"
    using e1 by simp
  have "trace W1 = trace bcast_world @ concat (map (\<lambda>s. case s of
                                      None \<Rightarrow> []
                                    | Some ch \<Rightarrow>
                                        if recv_queue ch = [] then []
                                        else [Coro_wakeup (hd (recv_queue ch))])
                                (channels bcast_world))"
    using try_broadcast_atomic [OF ok1 r1] rc1 by blast
  then have "trace W1 = [Coro_wakeup 7, Coro_wakeup 4]"
    by (simp add: bcast_world_def)
  then have t1: "trace (snd (coro_bus_try_broadcast bcast_world 9))
      = [Coro_wakeup 7, Coro_wakeup 4]"
    by (simp add: r1)
  have c2: "channels (snd (coro_bus_try_broadcast recv_world 9)) = channels recv_world"
    using try_broadcast_atomic [OF ok2 e2] by (simp add: e2)
  show ?thesis using ok1 ok2 e1 e2 t1 c2 by blast
qed

subsection \<open>Occupancy and head stay within bounds\<close>

text \<open>
  C3. Call a bus state well formed (\<open>bus_ok\<close>) when every open channel has
  \<open>0 \<le> size \<le> capacity\<close> and \<open>0 \<le> head < max(capacity, 1)\<close>, and its buffer has
  \<open>capacity\<close> words. In every well-formed state these bounds hold for every channel, and a
  channel of capacity 0 has size 0. A bus returned by \<^verbatim>\<open>coro_bus_new\<close> is well formed, and every
  bus or channel operation takes a well-formed state to a well-formed state:
  \<^verbatim>\<open>coro_bus_channel_open\<close> (for every capacity, 0 included), \<^verbatim>\<open>coro_bus_channel_close\<close>,
  \<^verbatim>\<open>coro_bus_delete\<close>, the five \<^verbatim>\<open>try_\<close> functions, and the five blocking functions when
  the coroutines that run while the caller is suspended keep the state well formed. So the send
  family never raises the size of a channel of capacity 0 above 0.
\<close>

theorem size_head_invariant:
  assumes "bus_ok w"
  shows
    "(\<forall>v. bus_ok v \<longrightarrow>
        (\<forall>i ch. i < length (channels v) \<and> channels v ! i = Some ch \<longrightarrow>
           size_ch ch \<le> size_limit ch \<and> head ch < max (size_limit ch) 1
           \<and> (size_limit ch = 0 \<longrightarrow> size_ch ch = 0)))
     \<and> (fst (coro_bus_new al w0) \<longrightarrow> bus_ok (snd (coro_bus_new al w0)))
     \<and> bus_ok (snd (coro_bus_new al w))
     \<and> (\<forall>r w'. coro_bus_channel_open al w n = Opened r w' \<longrightarrow> bus_ok w')
     \<and> bus_ok (coro_bus_channel_close w c)
     \<and> bus_ok (coro_bus_delete bus_null w)
     \<and> bus_ok (snd (coro_bus_try_send w c d))
     \<and> bus_ok (snd (snd (coro_bus_try_recv w c out)))
     \<and> bus_ok (snd (coro_bus_try_send_v w c ws))
     \<and> bus_ok (snd (snd (coro_bus_try_recv_v w c cap)))
     \<and> bus_ok (snd (coro_bus_try_broadcast w d))
     \<and> ((\<forall>e\<in>set envs. \<forall>v. bus_ok v \<longrightarrow> bus_ok (e v)) \<longrightarrow>
          (\<forall>r w'. coro_bus_send envs self w c d = Some (r, w') \<longrightarrow> bus_ok w')
          \<and> (\<forall>r w'. coro_bus_recv envs self w c out = Some (r, w') \<longrightarrow> bus_ok w')
          \<and> (\<forall>r w'. coro_bus_broadcast envs self w d = Some (r, w') \<longrightarrow> bus_ok w')
          \<and> (\<forall>r w'. coro_bus_send_v envs self w c ws = Some (r, w') \<longrightarrow> bus_ok w')
          \<and> (\<forall>r w'. coro_bus_recv_v envs self w c cap = Some (r, w') \<longrightarrow> bus_ok w'))"
proof -
  have bounds: "\<forall>v. bus_ok v \<longrightarrow>
        (\<forall>i ch. i < length (channels v) \<and> channels v ! i = Some ch \<longrightarrow>
           size_ch ch \<le> size_limit ch \<and> head ch < max (size_limit ch) 1
           \<and> (size_limit ch = 0 \<longrightarrow> size_ch ch = 0))"
    using bus_ok_bounds by blast
  have fresh: "fst (coro_bus_new al w0) \<longrightarrow> bus_ok (snd (coro_bus_new al w0))"
    using bus_new_fresh by blast
  have opn: "\<forall>r w'. coro_bus_channel_open al w n = Opened r w' \<longrightarrow> bus_ok w'"
    using open_ok [OF assms] by blast
  have blocking: "(\<forall>r w'. coro_bus_send envs self w c d = Some (r, w') \<longrightarrow> bus_ok w')
          \<and> (\<forall>r w'. coro_bus_recv envs self w c out = Some (r, w') \<longrightarrow> bus_ok w')
          \<and> (\<forall>r w'. coro_bus_broadcast envs self w d = Some (r, w') \<longrightarrow> bus_ok w')
          \<and> (\<forall>r w'. coro_bus_send_v envs self w c ws = Some (r, w') \<longrightarrow> bus_ok w')
          \<and> (\<forall>r w'. coro_bus_recv_v envs self w c cap = Some (r, w') \<longrightarrow> bus_ok w')"
    if env: "\<forall>e\<in>set envs. \<forall>v. bus_ok v \<longrightarrow> bus_ok (e v)"
  proof (intro conjI allI impI)
    fix r w' assume "coro_bus_send envs self w c d = Some (r, w')"
    then show "bus_ok w'"
      unfolding coro_bus_send_def
      by (rule run_blocking_preserves [where P = bus_ok, rotated 4])
        (use env assms in \<open>simp_all add: send_iter_ok resume_send_ok\<close>)
  next
    fix r w' assume "coro_bus_recv envs self w c out = Some (r, w')"
    then show "bus_ok w'"
      unfolding coro_bus_recv_def
      by (rule run_blocking_preserves [where P = bus_ok, rotated 4])
        (use env assms in \<open>simp_all add: recv_iter_ok resume_recv_ok\<close>)
  next
    fix r w' assume "coro_bus_broadcast envs self w d = Some (r, w')"
    then show "bus_ok w'"
      unfolding coro_bus_broadcast_def
      by (rule run_blocking_preserves [where P = bus_ok, rotated 4])
        (use env assms in \<open>simp_all add: broadcast_iter_ok resume_send_ok\<close>)
  next
    fix r w' assume "coro_bus_send_v envs self w c ws = Some (r, w')"
    then show "bus_ok w'"
      unfolding coro_bus_send_v_def
      by (rule run_blocking_preserves [where P = bus_ok, rotated 4])
        (use env assms in \<open>simp_all add: send_v_iter_ok resume_send_ok\<close>)
  next
    fix r w' assume "coro_bus_recv_v envs self w c cap = Some (r, w')"
    then show "bus_ok w'"
      unfolding coro_bus_recv_v_def
      by (rule run_blocking_preserves [where P = bus_ok, rotated 4])
        (use env assms in \<open>simp_all add: recv_v_iter_ok resume_recv_ok\<close>)
  qed
  show ?thesis
    using bounds fresh bus_new_ok [OF assms, of al] opn close_ok [OF assms, of c]
      delete_ok [OF assms, of bus_null] try_send_ok [OF assms, of c d]
      try_recv_ok [OF assms, of c out] try_send_v_ok [OF assms, of c ws]
      try_recv_v_ok [OF assms, of c cap] try_broadcast_ok [OF assms, of d] blocking
    by blast
qed

theorem size_head_invariant_witness:
  "bus_ok zero_cap_world
   \<and> bus_ok (snd (coro_bus_try_send zero_cap_world 2 5))
   \<and> size_limit (the (channels (snd (coro_bus_try_send zero_cap_world 2 5)) ! 2)) = 0
   \<and> size_ch (the (channels (snd (coro_bus_try_send zero_cap_world 2 5)) ! 2)) = 0
   \<and> bus_ok (snd (coro_bus_try_send zero_cap_world 0 5))
   \<and> size_ch (the (channels (snd (coro_bus_try_send zero_cap_world 0 5)) ! 0)) = 1
   \<and> bus_ok (snd (coro_bus_try_broadcast zero_cap_world 5))
   \<and> size_ch (the (channels (snd (coro_bus_try_broadcast zero_cap_world 5)) ! 2)) = 0
   \<and> bus_ok full_world
   \<and> (\<exists>W. coro_bus_send [close_channel_0] 9 full_world 0 6 = Some (- 1, W) \<and> bus_ok W)"
proof -
  have okz: "bus_ok zero_cap_world"
    by (simp add: bus_ok_def zero_cap_world_def slot_all_def chan_ok_def chan_inv_def
        SIZE_MAX_def)
  have okf: "bus_ok full_world"
    by (simp add: bus_ok_def full_world_def slot_all_def chan_ok_def chan_inv_def SIZE_MAX_def)
  have env: "\<forall>e\<in>set [close_channel_0]. \<forall>v. bus_ok v \<longrightarrow> bus_ok (e v)"
    by (simp add: close_channel_0_def close_ok)
  note z2 = size_head_invariant [OF okz, where c = 2 and d = 5]
  note z0 = size_head_invariant [OF okz, where c = 0 and d = 5]
  note f = size_head_invariant
    [OF okf, where c = 0 and d = 6 and envs = "[close_channel_0]" and self = 9]
  have a: "bus_ok (snd (coro_bus_try_send zero_cap_world 2 5))" using z2 by blast
  have b: "bus_ok (snd (coro_bus_try_send zero_cap_world 0 5))" using z0 by blast
  have c: "bus_ok (snd (coro_bus_try_broadcast zero_cap_world 5))" using z0 by blast
  have sizes:
    "size_limit (the (channels (snd (coro_bus_try_send zero_cap_world 2 5)) ! 2)) = 0"
    "size_ch (the (channels (snd (coro_bus_try_send zero_cap_world 2 5)) ! 2)) = 0"
    "size_ch (the (channels (snd (coro_bus_try_send zero_cap_world 0 5)) ! 0)) = 1"
    "size_ch (the (channels (snd (coro_bus_try_broadcast zero_cap_world 5)) ! 2)) = 0"
    by (simp_all add: zero_cap_world_def coro_bus_try_send_def coro_bus_try_broadcast_def
        channel_count_def size_t_add_def Let_def)
  obtain W where run: "coro_bus_send [close_channel_0] 9 full_world 0 6 = Some (- 1, W)"
    by (simp add: eval_defs)
  have "bus_ok W" using f env run by blast
  then have d: "\<exists>W. coro_bus_send [close_channel_0] 9 full_world 0 6 = Some (- 1, W) \<and> bus_ok W"
    using run by blast
  show ?thesis using okz okf a b c sizes d by blast
qed

subsection \<open>The ring is a first-in first-out queue\<close>

text \<open>
  C5. For every open channel of a well-formed bus: \<^verbatim>\<open>coro_bus_try_send\<close>, when the channel is
  not full, writes its word at \<open>buffer[(head + size) mod capacity]\<close> and increments
  \<open>size\<close>; \<^verbatim>\<open>coro_bus_try_recv\<close>, when the channel is not empty, reads \<open>buffer[head]\<close>,
  advances \<open>head\<close> to \<open>(head + 1) mod capacity\<close> and decrements \<open>size\<close>. With the message
  at logical position \<open>k < size\<close> read at \<open>buffer[(head + k) mod capacity]\<close>
  (\<open>ring_contents\<close>), a send appends its word after the last message and a receive returns and
  removes the first message. Hence for any sequence of sends and receives on the channel, the
  messages first in the ring followed by the words sent are the words received followed by the
  messages left in the ring: words are received in the order in which they were sent.
\<close>

theorem ring_buffer_fifo:
  assumes "bus_ok w" and "0 \<le> c" and "c < channel_count w" and "channels w ! nat c = Some ch"
  shows
    "(size_ch ch \<noteq> size_limit ch \<longrightarrow>
        coro_bus_try_send w c d =
          (0, w\<lparr> channels := (channels w)[nat c := Some (ch\<lparr>
                    data := (data ch)[(head ch + size_ch ch) mod size_limit ch := d],
                    size_ch := size_ch ch + 1 \<rparr>)],
                 global_error := CORO_BUS_ERR_NONE,
                 trace := wakeup_queue_wakeup_first (recv_queue ch) (trace w) \<rparr>)
        \<and> ring_contents (ch\<lparr>
              data := (data ch)[(head ch + size_ch ch) mod size_limit ch := d],
              size_ch := size_ch ch + 1 \<rparr>) = ring_contents ch @ [d])
     \<and> (size_ch ch \<noteq> 0 \<longrightarrow>
        coro_bus_try_recv w c (Some x) =
          (0, Some (data ch ! head ch),
           w\<lparr> channels := (channels w)[nat c := Some (ch\<lparr>
                    head := (head ch + 1) mod size_limit ch,
                    size_ch := size_ch ch - 1 \<rparr>)],
              global_error := CORO_BUS_ERR_NONE,
              trace := wakeup_queue_wakeup_first (send_queue ch) (trace w) \<rparr>)
        \<and> data ch ! head ch = hd (ring_contents ch)
        \<and> ring_contents (ch\<lparr> head := (head ch + 1) mod size_limit ch,
                               size_ch := size_ch ch - 1 \<rparr>) = tl (ring_contents ch))
     \<and> length (ring_contents ch) = size_ch ch
     \<and> (\<forall>k < size_ch ch. ring_contents ch ! k = data ch ! ((head ch + k) mod size_limit ch))
     \<and> (\<forall>s r w'. run_ops c ops w = (s, r, w') \<longrightarrow>
          (\<exists>ch'. channels w' ! nat c = Some ch'
             \<and> ring_contents ch @ s = r @ ring_contents ch'))"
proof -
  have "nat c < length (channels w)"
    using assms(2,3) by (simp add: channel_count_def nat_less_iff)
  then have ok: "chan_ok ch" using assms(1,4) bus_ok_nth by blast
  have send: "size_ch ch \<noteq> size_limit ch \<longrightarrow>
        coro_bus_try_send w c d =
          (0, w\<lparr> channels := (channels w)[nat c := Some (ch\<lparr>
                    data := (data ch)[(head ch + size_ch ch) mod size_limit ch := d],
                    size_ch := size_ch ch + 1 \<rparr>)],
                 global_error := CORO_BUS_ERR_NONE,
                 trace := wakeup_queue_wakeup_first (recv_queue ch) (trace w) \<rparr>)
        \<and> ring_contents (ch\<lparr>
              data := (data ch)[(head ch + size_ch ch) mod size_limit ch := d],
              size_ch := size_ch ch + 1 \<rparr>) = ring_contents ch @ [d]"
    using try_send_success [OF assms(2,3,4) ok] ring_push [OF ok] by blast
  have recv: "size_ch ch \<noteq> 0 \<longrightarrow>
        coro_bus_try_recv w c (Some x) =
          (0, Some (data ch ! head ch),
           w\<lparr> channels := (channels w)[nat c := Some (ch\<lparr>
                    head := (head ch + 1) mod size_limit ch,
                    size_ch := size_ch ch - 1 \<rparr>)],
              global_error := CORO_BUS_ERR_NONE,
              trace := wakeup_queue_wakeup_first (send_queue ch) (trace w) \<rparr>)
        \<and> data ch ! head ch = hd (ring_contents ch)
        \<and> ring_contents (ch\<lparr> head := (head ch + 1) mod size_limit ch,
                               size_ch := size_ch ch - 1 \<rparr>) = tl (ring_contents ch)"
  proof
    assume ne: "size_ch ch \<noteq> 0"
    show "coro_bus_try_recv w c (Some x) =
          (0, Some (data ch ! head ch),
           w\<lparr> channels := (channels w)[nat c := Some (ch\<lparr>
                    head := (head ch + 1) mod size_limit ch,
                    size_ch := size_ch ch - 1 \<rparr>)],
              global_error := CORO_BUS_ERR_NONE,
              trace := wakeup_queue_wakeup_first (send_queue ch) (trace w) \<rparr>)
        \<and> data ch ! head ch = hd (ring_contents ch)
        \<and> ring_contents (ch\<lparr> head := (head ch + 1) mod size_limit ch,
                               size_ch := size_ch ch - 1 \<rparr>) = tl (ring_contents ch)"
      using try_recv_success [OF assms(2,3,4) ok ne, of "Some x"] ring_pop [OF ok ne] by simp
  qed
  have pos: "\<forall>k < size_ch ch. ring_contents ch ! k = data ch ! ((head ch + k) mod size_limit ch)"
    using ring_contents_nth by blast
  have fifo: "\<forall>s r w'. run_ops c ops w = (s, r, w') \<longrightarrow>
          (\<exists>ch'. channels w' ! nat c = Some ch'
             \<and> ring_contents ch @ s = r @ ring_contents ch')"
    using run_ops_fifo [OF assms] by blast
  show ?thesis using send recv pos fifo ring_contents_length [of ch] by blast
qed

text \<open>The witness is the bounded pipe of capacity 2: the sends of 1 and 2 succeed, the send of
  3 finds the channel full, a receive makes room, the send of 3 succeeds, and two more receives
  empty the channel. The words received are 1, 2, 3.\<close>

theorem ring_buffer_fifo_witness:
  "bus_ok pipe_world \<and> (0::int) \<le> 0 \<and> 0 < channel_count pipe_world
   \<and> channels pipe_world ! nat 0 =
       Some \<lparr> size_limit = 2, send_queue = [], recv_queue = [], data = [0, 0],
              head = 0, size_ch = 0 \<rparr>
   \<and> run_ops 0 [Op_send 1, Op_send 2, Op_send 3, Op_recv, Op_send 3, Op_recv, Op_recv]
        pipe_world =
       ([1, 2, 3], [1, 2, 3],
        \<lparr> channels =
            [Some \<lparr> size_limit = 2, send_queue = [], recv_queue = [], data = [3, 2],
                    head = 1, size_ch = 0 \<rparr>],
          global_error = CORO_BUS_ERR_NONE, trace = [] \<rparr>)
   \<and> ring_contents \<lparr> size_limit = 2, send_queue = [], recv_queue = [], data = [0, 0],
                      head = 0, size_ch = 0 \<rparr> @ [1, 2, 3]
       = [1, 2, 3] @ ring_contents \<lparr> size_limit = 2, send_queue = [], recv_queue = [],
                                     data = [3, 2], head = 1, size_ch = 0 \<rparr>"
proof -
  have ok: "bus_ok pipe_world"
    by (simp add: bus_ok_def pipe_world_def slot_all_def chan_ok_def chan_inv_def SIZE_MAX_def)
  have z: "(0::int) \<le> 0" by simp
  have cnt: "0 < channel_count pipe_world"
    by (simp add: channel_count_def pipe_world_def)
  have slot: "channels pipe_world ! nat 0 =
      Some \<lparr> size_limit = 2, send_queue = [], recv_queue = [], data = [0, 0],
             head = 0, size_ch = 0 \<rparr>"
    by (simp add: pipe_world_def)
  have run: "run_ops 0 [Op_send 1, Op_send 2, Op_send 3, Op_recv, Op_send 3, Op_recv, Op_recv]
        pipe_world =
       ([1, 2, 3], [1, 2, 3],
        \<lparr> channels =
            [Some \<lparr> size_limit = 2, send_queue = [], recv_queue = [], data = [3, 2],
                    head = 1, size_ch = 0 \<rparr>],
          global_error = CORO_BUS_ERR_NONE, trace = [] \<rparr>)"
    by (simp add: pipe_world_def coro_bus_try_send_def coro_bus_try_recv_def channel_count_def
        wakeup_queue_wakeup_first_def size_t_add_def size_t_sub_def Let_def)
  note fifo = ring_buffer_fifo [OF ok z cnt slot,
      where ops = "[Op_send 1, Op_send 2, Op_send 3, Op_recv, Op_send 3, Op_recv, Op_recv]",
      THEN conjunct2, THEN conjunct2, THEN conjunct2, THEN conjunct2, rule_format, OF run]
  have "ring_contents \<lparr> size_limit = 2, send_queue = [], recv_queue = [], data = [0, 0],
                      head = 0, size_ch = 0 \<rparr> @ [1, 2, 3]
       = [1, 2, 3] @ ring_contents \<lparr> size_limit = 2, send_queue = [], recv_queue = [],
                                     data = [3, 2], head = 1, size_ch = 0 \<rparr>"
    using fifo by simp
  then show ?thesis using ok z cnt slot run by blast
qed

end
